theory Spec2Isabelle
  imports Complex_Main
begin

section \<open>Liveness-check state machine of \<open>src/App.tsx\<close>\<close>

text \<open>
  The development embeds the detection reducer and the per-frame handler of
  \<open>src/App.tsx\<close>. A JavaScript \<open>number\<close> that holds a measurement or a threshold
  is a finite double, given by its real value; comparisons are exact on these. The
  arithmetic of the \<open>NOD\<close> case is the one of binary64: every addition, division and
  subtraction is rounded to nearest, ties to even, and overflows to infinity. The
  progress percentage is computed over the reals. The challenge index only ever holds
  \<open>0\<close> and successors of it, so it is a \<open>nat\<close>.
\<close>

subsection \<open>Configuration (lines 12--42)\<close>

record Rect =
  minX :: real
  minY :: real
  width :: real
  height :: real

definition PREVIEW_SIZE :: real where
  "PREVIEW_SIZE = 325"

text \<open>
  \<open>windowWidth\<close> comes from \<open>Dimensions.get("window")\<close>; it is a parameter here.
\<close>

definition PREVIEW_RECT :: "real \<Rightarrow> Rect" where
  "PREVIEW_RECT windowWidth =
     \<lparr>minX = (windowWidth - PREVIEW_SIZE) / 2, minY = 50,
      width = PREVIEW_SIZE, height = PREVIEW_SIZE\<rparr>"

datatype DetectionActions = BLINK | TURN_HEAD_LEFT | TURN_HEAD_RIGHT | NOD | SMILE

text \<open>The thresholds of the \<open>detections\<close> table.\<close>

definition BLINK_minProbability :: real where
  "BLINK_minProbability = 0.3"

definition TURN_HEAD_LEFT_maxAngle :: real where
  "TURN_HEAD_LEFT_maxAngle = - 15"

definition TURN_HEAD_RIGHT_minAngle :: real where
  "TURN_HEAD_RIGHT_minAngle = 15"

definition NOD_minDiff :: real where
  "NOD_minDiff = 1.5"

definition SMILE_minProbability :: real where
  "SMILE_minProbability = 0.7"

definition detectionsList :: "DetectionActions list" where
  "detectionsList = [BLINK, TURN_HEAD_LEFT, TURN_HEAD_RIGHT, NOD, SMILE]"

subsection \<open>Session state and events (lines 44--66)\<close>

datatype YesNo = Yes | No

text \<open>
  The field \<open>detectionsList\<close> of the state object is \<open>stateDetectionsList\<close> here, since
  the constant of the same name is already \<open>detectionsList\<close>.
\<close>

record SessionState =
  faceDetected :: YesNo
  faceTooBig :: YesNo
  stateDetectionsList :: "DetectionActions list"
  currentDetectionIndex :: nat
  progressFill :: real
  processComplete :: bool

definition initialState :: SessionState where
  "initialState =
     \<lparr>faceDetected = No, faceTooBig = No, stateDetectionsList = detectionsList,
      currentDetectionIndex = 0, progressFill = 0, processComplete = False\<rparr>"

text \<open>
  \<open>PossibleActions\<close> is the closed union of the three action shapes; the \<open>default\<close>
  branch of the reducer, which throws, has no value of this type to receive.
\<close>

datatype PossibleActions = FACE_DETECTED YesNo | FACE_TOO_BIG YesNo | NEXT_DETECTION

subsection \<open>The reducer (lines 68--114)\<close>

fun detectionReducer :: "SessionState \<Rightarrow> PossibleActions \<Rightarrow> SessionState" where
  "detectionReducer state (FACE_DETECTED payload) =
     (if payload = Yes
      then state\<lparr>faceDetected := payload,
                 progressFill := 100 / real (length (stateDetectionsList state) + 1)\<rparr>
      else initialState)"
| "detectionReducer state (FACE_TOO_BIG payload) = state\<lparr>faceTooBig := payload\<rparr>"
| "detectionReducer state NEXT_DETECTION =
     (let nextDetectionIndex = currentDetectionIndex state + 1;
          progressMultiplier = nextDetectionIndex + 1;
          newProgressFill =
            (100 / real (length (stateDetectionsList state) + 1)) * real progressMultiplier
      in if nextDetectionIndex = length (stateDetectionsList state)
         then state\<lparr>processComplete := True, progressFill := newProgressFill\<rparr>
         else state\<lparr>currentDetectionIndex := nextDetectionIndex,
                    progressFill := newProgressFill\<rparr>)"

text \<open>
  \<open>React.useReducer(detectionReducer, initialState)\<close>: the states the session can be in
  are the ones the reducer produces from \<open>initialState\<close> along a list of events.
\<close>

definition run :: "PossibleActions list \<Rightarrow> SessionState" where
  "run events = foldl detectionReducer initialState events"

subsection \<open>Binary64 arithmetic\<close>

text \<open>
  A value of a JavaScript \<open>number\<close> during a computation: a finite double, given by
  its real value, an infinity or NaN. The two zeros are one value \<open>Finite 0\<close>; the
  operations below never tell them apart.
\<close>

datatype f64 = Finite real | PosInf | NegInf | NaN

text \<open>
  The exponent of a positive real \<open>a\<close>: the \<open>e\<close> with \<open>2 ^ e \<le> a < 2 ^ (e + 1)\<close>,
  kept within the normal range, from \<open>-1022\<close> (below which doubles are subnormal) to
  \<open>1023\<close>. The search starts at \<open>e = 0\<close> with \<open>p = 2 ^ e\<close>.
\<close>

fun expUp :: "nat \<Rightarrow> real \<Rightarrow> int \<Rightarrow> real \<Rightarrow> int" where
  "expUp 0 a e p = e"
| "expUp (Suc k) a e p = (if 2 * p \<le> a then expUp k a (e + 1) (2 * p) else e)"

fun expDown :: "nat \<Rightarrow> real \<Rightarrow> int \<Rightarrow> real \<Rightarrow> int" where
  "expDown 0 a e p = e"
| "expDown (Suc k) a e p = (if p \<le> a then e else expDown k a (e - 1) (p / 2))"

definition exponent :: "real \<Rightarrow> int" where
  "exponent a = (if 1 \<le> a then expUp 1023 a 0 1 else expDown 1022 a 0 1)"

definition roundTiesToEven :: "real \<Rightarrow> int" where
  "roundTiesToEven t =
     (let n = \<lfloor>t\<rfloor>; r = t - of_int n
      in if r < 1 / 2 then n else if r > 1 / 2 then n + 1 else if even n then n else n + 1)"

text \<open>
  Rounding a real to binary64: the doubles around \<open>x\<close> are the multiples of
  \<open>2 ^ (e - 52)\<close> (53 significant bits), \<open>x\<close> goes to the nearest one, to the even one
  on a tie, and a result of magnitude \<open>2 ^ 1024\<close> or more is an infinity.
\<close>

definition round64 :: "real \<Rightarrow> f64" where
  "round64 x =
     (let a = \<bar>x\<bar>;
          ulp = 2 powi (exponent a - 52);
          y = of_int (roundTiesToEven (a / ulp)) * ulp
      in if y \<ge> 2 powi 1024 then (if x > 0 then PosInf else NegInf)
         else Finite (if x \<ge> 0 then y else - y))"

text \<open>The operators \<open>+\<close>, unary and binary \<open>-\<close>, and \<open>Math.abs\<close>.\<close>

fun f64_add :: "f64 \<Rightarrow> f64 \<Rightarrow> f64" where
  "f64_add NaN _ = NaN"
| "f64_add _ NaN = NaN"
| "f64_add PosInf NegInf = NaN"
| "f64_add NegInf PosInf = NaN"
| "f64_add PosInf _ = PosInf"
| "f64_add _ PosInf = PosInf"
| "f64_add NegInf _ = NegInf"
| "f64_add _ NegInf = NegInf"
| "f64_add (Finite x) (Finite y) = round64 (x + y)"

fun f64_neg :: "f64 \<Rightarrow> f64" where
  "f64_neg (Finite x) = Finite (- x)"
| "f64_neg PosInf = NegInf"
| "f64_neg NegInf = PosInf"
| "f64_neg NaN = NaN"

definition f64_sub :: "f64 \<Rightarrow> f64 \<Rightarrow> f64" where
  "f64_sub a b = f64_add a (f64_neg b)"

fun f64_abs :: "f64 \<Rightarrow> f64" where
  "f64_abs (Finite x) = Finite \<bar>x\<bar>"
| "f64_abs PosInf = PosInf"
| "f64_abs NegInf = PosInf"
| "f64_abs NaN = NaN"

text \<open>
  Division by the \<open>length\<close> of an array, a non-negative integer; a length of zero is
  the positive zero.
\<close>

fun f64_div_length :: "f64 \<Rightarrow> nat \<Rightarrow> f64" where
  "f64_div_length NaN n = NaN"
| "f64_div_length PosInf n = PosInf"
| "f64_div_length NegInf n = NegInf"
| "f64_div_length (Finite x) n =
     (if n = 0 then (if x > 0 then PosInf else if x < 0 then NegInf else NaN)
      else round64 (x / real n))"

text \<open>The comparison \<open>>=\<close> with a finite threshold; it is false on NaN.\<close>

fun f64_ge :: "f64 \<Rightarrow> real \<Rightarrow> bool" where
  "f64_ge (Finite x) t = (x \<ge> t)"
| "f64_ge PosInf t = True"
| "f64_ge NegInf t = False"
| "f64_ge NaN t = False"

subsection \<open>The frame handler (lines 138--258)\<close>

record Face =
  bounds_origin_x :: real
  bounds_origin_y :: real
  bounds_size_width :: real
  bounds_size_height :: real
  leftEyeOpenProbability :: real
  rightEyeOpenProbability :: real
  smilingProbability :: real
  yawAngle :: real
  rollAngle :: real

text \<open>
  The \<open>NOD\<close> case (lines 206--238). The buffer \<open>rollAngles.current\<close> is passed in and
  returned; \<open>push\<close> appends, \<open>shift\<close> drops the head, and \<open>splice(0, length - 1)\<close> on
  the copy returns its first \<open>length - 1\<close> elements. The sum starts from \<open>0\<close> and adds
  \<open>Math.abs(curr)\<close> from left to right; \<open>Math.abs\<close> of a finite double is exact.
\<close>

definition nodCase :: "real list \<Rightarrow> Face \<Rightarrow> PossibleActions list \<times> real list" where
  "nodCase rollAngles face =
     (let pushed = rollAngles @ [rollAngle face];
          current = (if length pushed > 10 then tl pushed else pushed)
      in if length current < 10 then ([], current)
         else
           let rollAnglesExceptCurrent = take (length current - 1) current;
               rollAnglesSum =
                 foldl (\<lambda>prev curr. f64_add prev (Finite \<bar>curr\<bar>)) (Finite 0)
                   rollAnglesExceptCurrent;
               avgAngle = f64_div_length rollAnglesSum (length rollAnglesExceptCurrent);
               diff = f64_abs (f64_sub avgAngle (Finite \<bar>rollAngle face\<bar>))
           in if f64_ge diff NOD_minDiff then ([NEXT_DETECTION], current) else ([], current))"

text \<open>
  Line 193: \<open>state.detectionsList[state.currentDetectionIndex]\<close>. Reading a
  JavaScript array out of range gives \<open>undefined\<close>, which is \<open>None\<close> here.
\<close>

definition detectionAction :: "SessionState \<Rightarrow> DetectionActions option" where
  "detectionAction state =
     (if currentDetectionIndex state < length (stateDetectionsList state)
      then Some (stateDetectionsList state ! currentDetectionIndex state)
      else None)"

text \<open>
  The \<open>switch\<close> on the current challenge (lines 195--257); \<open>undefined\<close> matches
  no case, and nothing is dispatched.
\<close>

definition evaluateChallenge ::
  "SessionState \<Rightarrow> real list \<Rightarrow> Face \<Rightarrow> PossibleActions list \<times> real list" where
  "evaluateChallenge state rollAngles face =
     (case detectionAction state of
        Some BLINK \<Rightarrow>
          (let leftEyeClosed = leftEyeOpenProbability face \<le> BLINK_minProbability;
               rightEyeClosed = rightEyeOpenProbability face \<le> BLINK_minProbability
           in if leftEyeClosed \<and> rightEyeClosed then ([NEXT_DETECTION], rollAngles)
              else ([], rollAngles))
      | Some NOD \<Rightarrow> nodCase rollAngles face
      | Some TURN_HEAD_LEFT \<Rightarrow>
          (if yawAngle face \<le> TURN_HEAD_LEFT_maxAngle then ([NEXT_DETECTION], rollAngles)
           else ([], rollAngles))
      | Some TURN_HEAD_RIGHT \<Rightarrow>
          (if yawAngle face \<ge> TURN_HEAD_RIGHT_minAngle then ([NEXT_DETECTION], rollAngles)
           else ([], rollAngles))
      | Some SMILE \<Rightarrow>
          (if smilingProbability face \<ge> SMILE_minProbability
           then ([NEXT_DETECTION], rollAngles)
           else ([], rollAngles))
      | None \<Rightarrow> ([], rollAngles))"

text \<open>
  \<open>handleFaceDetection\<close> reads the state of the current render and the buffer, and
  dispatches events; the model returns the events in the order they are dispatched,
  with the buffer as the handler leaves it. Each \<open>return\<close> of the source is a
  branch that ends with the events dispatched up to it; the two tests on
  \<open>state.faceDetected === "no"\<close> (lines 176 and 189) read the same state, which the
  handler does not change. \<open>contains\<close> is imported from \<open>./utils/contains\<close>, whose
  source is not in \<open>src/\<close>: it is a parameter, applied to \<open>outside\<close> and
  \<open>inside\<close>.
\<close>

definition faceRectOf :: "Face \<Rightarrow> Rect" where
  "faceRectOf face =
     \<lparr>minX = bounds_origin_x face, minY = bounds_origin_y face,
      width = bounds_size_width face, height = bounds_size_height face\<rparr>"

definition edgeOffset :: real where
  "edgeOffset = 50"

definition faceRectSmallerOf :: "Face \<Rightarrow> Rect" where
  "faceRectSmallerOf face =
     (faceRectOf face)\<lparr>width := width (faceRectOf face) - edgeOffset,
                       height := height (faceRectOf face) - edgeOffset\<rparr>"

definition handleFaceDetection ::
  "(Rect \<Rightarrow> Rect \<Rightarrow> bool) \<Rightarrow> real \<Rightarrow> SessionState \<Rightarrow> real list \<Rightarrow> Face list
     \<Rightarrow> PossibleActions list \<times> real list" where
  "handleFaceDetection contains windowWidth state rollAngles faces =
     (if length faces \<noteq> 1 then ([FACE_DETECTED No], rollAngles)
      else
        let face = faces ! 0;
            faceRect = faceRectOf face;
            faceRectSmaller = faceRectSmallerOf face;
            previewContainsFace = contains (PREVIEW_RECT windowWidth) faceRectSmaller
        in if \<not> previewContainsFace then ([FACE_DETECTED No], rollAngles)
           else
             let faceMaxSize = PREVIEW_SIZE - 90
             in if faceDetected state = No \<and> width faceRect \<ge> faceMaxSize
                     \<and> height faceRect \<ge> faceMaxSize
                then ([FACE_TOO_BIG Yes], rollAngles)
                else
                  let tooBigNo =
                        (if faceDetected state = No \<and> faceTooBig state = Yes
                         then [FACE_TOO_BIG No] else []);
                      detectedYes =
                        (if faceDetected state = No then [FACE_DETECTED Yes] else []);
                      (advance, rollAngles') = evaluateChallenge state rollAngles face
                  in (tooBigNo @ detectedYes @ advance, rollAngles'))"

text \<open>
  One frame of the session: the handler runs on the state of the current render, and
  React then applies the reducer to the dispatched events in order. The buffer is a
  \<open>useRef\<close> cell, which only the handler writes.
\<close>

definition processFrame ::
  "(Rect \<Rightarrow> Rect \<Rightarrow> bool) \<Rightarrow> real \<Rightarrow> SessionState \<times> real list \<Rightarrow> Face list
     \<Rightarrow> SessionState \<times> real list" where
  "processFrame contains windowWidth session faces =
     (let (dispatched, rollAngles') =
            handleFaceDetection contains windowWidth (fst session) (snd session) faces
      in (foldl detectionReducer (fst session) dispatched, rollAngles'))"

text \<open>
  Modelled from the spec: the containment checker of \<open>./utils/contains\<close>, whose source
  is missing. It returns true iff \<open>inside\<close> is fully enclosed by \<open>outside\<close>. It serves
  as the concrete instance of the parameter of \<open>handleFaceDetection\<close>.
\<close>

definition contains :: "Rect \<Rightarrow> Rect \<Rightarrow> bool" where
  "contains outside inside \<longleftrightarrow>
     minX inside \<ge> minX outside \<and> minY inside \<ge> minY outside \<and>
     minX inside + width inside \<le> minX outside + width outside \<and>
     minY inside + height inside \<le> minY outside + height outside"

subsection \<open>Vocabulary of the properties\<close>

text \<open>
  The session after \<open>FACE_DETECTED(yes)\<close> and then \<open>n\<close> events
  \<open>NEXT_DETECTION\<close>.
\<close>

definition nextDetections :: "nat \<Rightarrow> SessionState" where
  "nextDetections n = run (FACE_DETECTED Yes # replicate n NEXT_DETECTION)"

text \<open>
  The number of \<open>NEXT_DETECTION\<close> events since the last \<open>FACE_DETECTED(no)\<close>, or
  since the start when there is none.
\<close>

definition nextsSinceReset :: "PossibleActions list \<Rightarrow> nat" where
  "nextsSinceReset events =
     length (filter (\<lambda>e. e = NEXT_DETECTION)
       (takeWhile (\<lambda>e. e \<noteq> FACE_DETECTED No) (rev events)))"

text \<open>
  The reference definition of the \<open>NOD\<close> evaluator, in the words of the
  specification: append the roll angle to the history; beyond 10 entries drop the oldest;
  below 10 entries report not satisfied; otherwise take the arithmetic mean of the
  absolute values of the entries except the one just appended, and report satisfied iff
  the mean differs from the absolute value of the current angle by at least 1.5. The
  result is the buffer and the verdict. The arithmetic is exact.
\<close>

definition nodSpec :: "real list \<Rightarrow> real \<Rightarrow> real list \<times> bool" where
  "nodSpec history angle =
     (let appended = history @ [angle];
          buffer = (if length appended > 10 then drop 1 appended else appended);
          previous = butlast buffer;
          mean = sum_list (map abs previous) / real (length previous)
      in (buffer, length buffer \<ge> 10 \<and> \<bar>mean - \<bar>angle\<bar>\<bar> \<ge> 1.5))"

text \<open>
  The same difference in binary64: the sum of the values from left to right, starting
  from 0, its quotient by the number of values, and the absolute value of the quotient
  less the absolute value of the current angle, each operation rounded.
\<close>

definition f64_sum :: "real list \<Rightarrow> f64" where
  "f64_sum values = foldl (\<lambda>acc v. f64_add acc (Finite v)) (Finite 0) values"

definition nodDiff64 :: "real list \<Rightarrow> real \<Rightarrow> f64" where
  "nodDiff64 previous angle =
     f64_abs (f64_sub (f64_div_length (f64_sum (map abs previous)) (length previous))
       (Finite \<bar>angle\<bar>))"

text \<open>
  A run of frames that all reach the \<open>NOD\<close> case: what each frame dispatches, and
  the buffer after the last one.
\<close>

fun nodFrames :: "real list \<Rightarrow> Face list \<Rightarrow> PossibleActions list list \<times> real list" where
  "nodFrames rollAngles [] = ([], rollAngles)"
| "nodFrames rollAngles (face # faces) =
     (let (dispatched, rollAngles') = nodCase rollAngles face;
          (rest, final) = nodFrames rollAngles' faces
      in (dispatched # rest, final))"

section \<open>Properties of the reducer\<close>

lemma length_detectionsList: "length detectionsList = 5"
  by (simp add: detectionsList_def)

text \<open>
  C5. From every state, and so from every reachable one, \<open>FACE_DETECTED(no)\<close> gives
  exactly the initial state: \<open>faceDetected = no\<close>, \<open>faceTooBig = no\<close>,
  \<open>currentDetectionIndex = 0\<close>, \<open>progressFill = 0\<close>, \<open>processComplete = false\<close>.
\<close>

theorem reset_completeness:
  "detectionReducer s (FACE_DETECTED No) = initialState \<and>
   detectionReducer (run events) (FACE_DETECTED No) = initialState \<and>
   faceDetected initialState = No \<and> faceTooBig initialState = No \<and>
   stateDetectionsList initialState = detectionsList \<and>
   currentDetectionIndex initialState = 0 \<and> progressFill initialState = 0 \<and>
   processComplete initialState = False"
  by (simp add: initialState_def)

theorem reset_completeness_witness:
  "detectionReducer (run [FACE_DETECTED Yes, NEXT_DETECTION, FACE_TOO_BIG Yes])
     (FACE_DETECTED No) =
   \<lparr>faceDetected = No, faceTooBig = No, stateDetectionsList = detectionsList,
    currentDetectionIndex = 0, progressFill = 0, processComplete = False\<rparr>"
  using reset_completeness [of "run [FACE_DETECTED Yes, NEXT_DETECTION, FACE_TOO_BIG Yes]" "[]"]
  by (simp add: initialState_def)

lemma run_Nil: "run [] = initialState"
  by (simp add: run_def)

lemma run_snoc: "run (events @ [e]) = detectionReducer (run events) e"
  by (simp add: run_def)

lemma nextsSinceReset_Nil: "nextsSinceReset [] = 0"
  by (simp add: nextsSinceReset_def)

lemma nextsSinceReset_snoc:
  "nextsSinceReset (events @ [e]) =
     (case e of
        FACE_DETECTED p \<Rightarrow> (if p = Yes then nextsSinceReset events else 0)
      | FACE_TOO_BIG p \<Rightarrow> nextsSinceReset events
      | NEXT_DETECTION \<Rightarrow> Suc (nextsSinceReset events))"
proof (cases e)
  case (FACE_DETECTED p)
  then show ?thesis by (cases p) (simp_all add: nextsSinceReset_def)
qed (simp_all add: nextsSinceReset_def)

lemma run_shape:
  "stateDetectionsList (run events) = detectionsList \<and>
   currentDetectionIndex (run events) = min 4 (nextsSinceReset events) \<and>
   processComplete (run events) = (5 \<le> nextsSinceReset events)"
proof (induction events rule: rev_induct)
  case Nil
  show ?case by (simp add: run_Nil nextsSinceReset_Nil initialState_def)
next
  case (snoc e events)
  show ?case
  proof (cases e)
    case (FACE_DETECTED p)
    with snoc show ?thesis
      by (simp add: run_snoc nextsSinceReset_snoc initialState_def)
  next
    case (FACE_TOO_BIG p)
    with snoc show ?thesis
      by (simp add: run_snoc nextsSinceReset_snoc)
  next
    case NEXT_DETECTION
    with snoc show ?thesis
      by (auto simp add: run_snoc nextsSinceReset_snoc Let_def length_detectionsList min_def)
  qed
qed

lemma run_progress_bounds:
  "0 \<le> progressFill (run events) \<and> progressFill (run events) \<le> 100"
proof (induction events rule: rev_induct)
  case Nil
  show ?case by (simp add: run_Nil initialState_def)
next
  case (snoc e es)
  have idx: "currentDetectionIndex (run es) \<le> 4"
    and l: "stateDetectionsList (run es) = detectionsList"
    using run_shape [of es] by simp_all
  show ?case
  proof (cases e)
    case (FACE_DETECTED p)
    with l show ?thesis
      by (simp add: run_snoc initialState_def length_detectionsList)
  next
    case (FACE_TOO_BIG p)
    with snoc show ?thesis by (simp add: run_snoc)
  next
    case NEXT_DETECTION
    with l idx show ?thesis
      by (simp add: run_snoc Let_def length_detectionsList)
  qed
qed


lemma nextDetections_0:
  "nextDetections 0 = initialState\<lparr>faceDetected := Yes, progressFill := 100 / 6\<rparr>"
  by (simp add: nextDetections_def run_def initialState_def length_detectionsList)

lemma nextDetections_Suc:
  "nextDetections (Suc n) = detectionReducer (nextDetections n) NEXT_DETECTION"
proof -
  have "FACE_DETECTED Yes # replicate (Suc n) NEXT_DETECTION =
        (FACE_DETECTED Yes # replicate n NEXT_DETECTION) @ [NEXT_DETECTION]"
    by (simp add: replicate_append_same)
  then show ?thesis
    unfolding nextDetections_def by (simp only: run_snoc)
qed

lemma nextDetections_shape:
  "nextDetections n =
     initialState\<lparr>faceDetected := Yes, currentDetectionIndex := min 4 n,
       progressFill := (100 / 6) * real (min 5 n + 1), processComplete := (5 \<le> n)\<rparr>"
proof (induction n)
  case 0
  show ?case by (simp add: nextDetections_0 initialState_def)
next
  case (Suc n)
  show ?case
    unfolding nextDetections_Suc Suc
    by (auto simp add: initialState_def length_detectionsList Let_def min_def)
qed

text \<open>
  C4. After \<open>FACE_DETECTED(yes)\<close> on the initial state \<open>progressFill\<close> is \<open>100/6\<close>.
  The five following \<open>NEXT_DETECTION\<close> events give \<open>100/3\<close>, \<open>50\<close>, \<open>200/3\<close>,
  \<open>250/3\<close>, \<open>100\<close>, which are \<open>33.33\<close>, \<open>50\<close>, \<open>66.67\<close>, \<open>83.33\<close>, \<open>100\<close> to two
  decimals; each of the five events strictly increases \<open>progressFill\<close>;
  \<open>processComplete\<close> is set by the fifth event and by no earlier one, and this is the
  event on which \<open>progressFill\<close> reaches 100; however many events follow, and in
  every reachable state, \<open>progressFill\<close> does not exceed 100.
\<close>

theorem progress_sequence:
  "map (\<lambda>k. progressFill (nextDetections k)) [0, 1, 2, 3, 4, 5] =
     [100 / 6, 100 / 3, 50, 200 / 3, 250 / 3, 100] \<and>
   map (\<lambda>k. processComplete (nextDetections k)) [0, 1, 2, 3, 4, 5] =
     [False, False, False, False, False, True] \<and>
   \<bar>100 / 3 - 33.33\<bar> < (0.005 :: real) \<and> \<bar>200 / 3 - 66.67\<bar> < (0.005 :: real) \<and>
   \<bar>250 / 3 - 83.33\<bar> < (0.005 :: real) \<and>
   (n < 5 \<longrightarrow> progressFill (nextDetections n) < progressFill (nextDetections (Suc n))) \<and>
   progressFill (nextDetections n) \<le> 100 \<and>
   (processComplete (nextDetections n) \<longleftrightarrow> 5 \<le> n) \<and>
   (progressFill (nextDetections n) = 100 \<longleftrightarrow> 5 \<le> n) \<and>
   progressFill (run events) \<le> 100"
  using run_progress_bounds [of events]
  by (simp add: nextDetections_shape initialState_def min_def)

theorem progress_sequence_witness:
  "(3::nat) < 5 \<and> progressFill (nextDetections 3) < progressFill (nextDetections (Suc 3)) \<and>
   progressFill (nextDetections 5) = 100 \<and> processComplete (nextDetections 5) \<and>
   \<not> processComplete (nextDetections 4)"
  using progress_sequence [where n = 3] progress_sequence [where n = 5]
    progress_sequence [where n = 4]
  by simp

text \<open>
  C1, as stated, fails: after \<open>FACE_DETECTED(yes)\<close> and five \<open>NEXT_DETECTION\<close> events
  \<open>processComplete\<close> is true while \<open>currentDetectionIndex\<close> is 4, not 5.
\<close>

theorem complete_iff_index_counterexample:
  "\<not> (processComplete
         (run [FACE_DETECTED Yes, NEXT_DETECTION, NEXT_DETECTION, NEXT_DETECTION,
               NEXT_DETECTION, NEXT_DETECTION]) \<longleftrightarrow>
       currentDetectionIndex
         (run [FACE_DETECTED Yes, NEXT_DETECTION, NEXT_DETECTION, NEXT_DETECTION,
               NEXT_DETECTION, NEXT_DETECTION]) = length detectionsList)"
  by (simp add: run_def initialState_def detectionsList_def Let_def)

text \<open>
  C1, amended. In every state reachable from the initial state, \<open>processComplete\<close> is
  true iff at least \<open>N = 5\<close> events \<open>NEXT_DETECTION\<close> were applied since the last
  \<open>FACE_DETECTED(no)\<close>; it is true only if \<open>currentDetectionIndex\<close> is \<open>N - 1\<close>, and
  \<open>currentDetectionIndex\<close> never equals \<open>N\<close>.
\<close>

theorem complete_iff_five_nexts:
  "(processComplete (run events) \<longleftrightarrow> length detectionsList \<le> nextsSinceReset events) \<and>
   (processComplete (run events) \<longrightarrow>
      currentDetectionIndex (run events) = length detectionsList - 1) \<and>
   currentDetectionIndex (run events) \<noteq> length detectionsList"
  using run_shape [of events] by (simp add: length_detectionsList)

theorem complete_iff_five_nexts_witness:
  "processComplete
     (run [FACE_DETECTED Yes, NEXT_DETECTION, NEXT_DETECTION, NEXT_DETECTION,
           NEXT_DETECTION, NEXT_DETECTION]) \<and>
   currentDetectionIndex
     (run [FACE_DETECTED Yes, NEXT_DETECTION, NEXT_DETECTION, NEXT_DETECTION,
           NEXT_DETECTION, NEXT_DETECTION]) = 4 \<and>
   nextsSinceReset [FACE_DETECTED Yes, NEXT_DETECTION, NEXT_DETECTION, NEXT_DETECTION,
           NEXT_DETECTION, NEXT_DETECTION] = 5"
  using complete_iff_five_nexts
    [of "[FACE_DETECTED Yes, NEXT_DETECTION, NEXT_DETECTION, NEXT_DETECTION,
           NEXT_DETECTION, NEXT_DETECTION]"]
  by (simp add: nextsSinceReset_def detectionsList_def)

text \<open>
  C2, as stated, fails: after \<open>FACE_DETECTED(yes)\<close> and one \<open>NEXT_DETECTION\<close> the state
  has \<open>faceDetected = yes\<close> and \<open>progressFill = 100/3\<close>; a further
  \<open>FACE_DETECTED(yes)\<close> moves \<open>progressFill\<close> back to \<open>100/6\<close>.
\<close>

theorem face_detected_yes_counterexample:
  "faceDetected (run [FACE_DETECTED Yes, NEXT_DETECTION]) = Yes \<and>
   detectionReducer (run [FACE_DETECTED Yes, NEXT_DETECTION]) (FACE_DETECTED Yes) \<noteq>
     run [FACE_DETECTED Yes, NEXT_DETECTION] \<and>
   progressFill (run [FACE_DETECTED Yes, NEXT_DETECTION]) = 100 / 3 \<and>
   progressFill
     (detectionReducer (run [FACE_DETECTED Yes, NEXT_DETECTION]) (FACE_DETECTED Yes)) = 100 / 6"
  by (simp add: run_def initialState_def detectionsList_def Let_def)

lemma evaluateChallenge_dispatches:
  "fst (evaluateChallenge s buf face) = [] \<or>
   fst (evaluateChallenge s buf face) = [NEXT_DETECTION]"
  by (simp add: evaluateChallenge_def nodCase_def Let_def
      split: option.split DetectionActions.split)

lemma handleFaceDetection_detected:
  "faceDetected s = Yes \<Longrightarrow>
   handleFaceDetection c w s buf faces = ([FACE_DETECTED No], buf) \<or>
   handleFaceDetection c w s buf faces = evaluateChallenge s buf (faces ! 0)"
  by (simp add: handleFaceDetection_def Let_def split: prod.split)

text \<open>
  C2, amended. On a state whose \<open>faceDetected\<close> is already \<open>yes\<close>, the reducer's
  \<open>FACE_DETECTED(yes)\<close> leaves every field unchanged except \<open>progressFill\<close>, which it
  sets to \<open>100 / (N + 1)\<close>; on a reachable state it is a no-op iff \<open>progressFill\<close> is
  already \<open>100/6\<close>. The frame handler does not dispatch \<open>FACE_DETECTED(yes)\<close> when the
  state has \<open>faceDetected = yes\<close>.
\<close>

theorem face_detected_yes_again:
  "(faceDetected s = Yes \<longrightarrow>
      detectionReducer s (FACE_DETECTED Yes) =
        s\<lparr>progressFill := 100 / real (length (stateDetectionsList s) + 1)\<rparr>) \<and>
   (faceDetected (run events) = Yes \<longrightarrow>
      detectionReducer (run events) (FACE_DETECTED Yes) =
        (run events)\<lparr>progressFill := 100 / 6\<rparr> \<and>
      (detectionReducer (run events) (FACE_DETECTED Yes) = run events \<longleftrightarrow>
         progressFill (run events) = 100 / 6)) \<and>
   (faceDetected s = Yes \<longrightarrow>
      FACE_DETECTED Yes \<notin> set (fst (handleFaceDetection c w s buf faces)))"
proof (intro conjI impI)
  assume "faceDetected s = Yes"
  then show "detectionReducer s (FACE_DETECTED Yes) =
        s\<lparr>progressFill := 100 / real (length (stateDetectionsList s) + 1)\<rparr>"
    by simp
next
  assume y: "faceDetected (run events) = Yes"
  have l: "stateDetectionsList (run events) = detectionsList"
    using run_shape [of events] by simp
  from y l show e: "detectionReducer (run events) (FACE_DETECTED Yes) =
        (run events)\<lparr>progressFill := 100 / 6\<rparr>"
    by (simp add: length_detectionsList)
  show "detectionReducer (run events) (FACE_DETECTED Yes) = run events \<longleftrightarrow>
         progressFill (run events) = 100 / 6"
    unfolding e
    by (metis SessionState.select_convs(5) SessionState.surjective SessionState.update_convs(5))
next
  assume y: "faceDetected s = Yes"
  show "FACE_DETECTED Yes \<notin> set (fst (handleFaceDetection c w s buf faces))"
    using handleFaceDetection_detected [OF y, of c w buf faces]
      evaluateChallenge_dispatches [of s buf "faces ! 0"]
    by auto
qed

theorem face_detected_yes_again_witness:
  "faceDetected (run [FACE_DETECTED Yes, NEXT_DETECTION]) = Yes \<and>
   detectionReducer (run [FACE_DETECTED Yes, NEXT_DETECTION]) (FACE_DETECTED Yes) =
     (run [FACE_DETECTED Yes, NEXT_DETECTION])\<lparr>progressFill := 100 / 6\<rparr> \<and>
   faceDetected (run [FACE_DETECTED Yes]) = Yes \<and>
   detectionReducer (run [FACE_DETECTED Yes]) (FACE_DETECTED Yes) = run [FACE_DETECTED Yes]"
  using face_detected_yes_again [of "run [FACE_DETECTED Yes, NEXT_DETECTION]"
      "[FACE_DETECTED Yes, NEXT_DETECTION]"]
    face_detected_yes_again [of "run [FACE_DETECTED Yes]" "[FACE_DETECTED Yes]"]
  by (simp add: run_def initialState_def detectionsList_def Let_def)

text \<open>
  C10. Every state reachable from the initial state keeps the configured list of five
  challenges and has \<open>currentDetectionIndex\<close> at most \<open>4\<close>, below the length of the
  list, so the lookup of the current challenge is defined; \<open>NEXT_DETECTION\<close> at the last
  index sets \<open>processComplete\<close> (and \<open>progressFill = 100\<close>) and leaves the index as
  it is.
\<close>

theorem index_in_bounds:
  "stateDetectionsList (run events) = detectionsList \<and>
   length detectionsList = 5 \<and>
   currentDetectionIndex (run events) < length (stateDetectionsList (run events)) \<and>
   currentDetectionIndex (run events) \<le> length detectionsList - 1 \<and>
   (\<exists>d. detectionAction (run events) = Some d \<and> d \<in> set detectionsList) \<and>
   (currentDetectionIndex (run events) = length detectionsList - 1 \<longrightarrow>
      detectionReducer (run events) NEXT_DETECTION =
        (run events)\<lparr>processComplete := True, progressFill := 100\<rparr> \<and>
      currentDetectionIndex (detectionReducer (run events) NEXT_DETECTION) =
        currentDetectionIndex (run events))"
  using run_shape [of events]
  by (simp add: length_detectionsList detectionAction_def Let_def)

theorem index_in_bounds_witness:
  "currentDetectionIndex (run (replicate 4 NEXT_DETECTION)) = length detectionsList - 1 \<and>
   detectionReducer (run (replicate 4 NEXT_DETECTION)) NEXT_DETECTION =
     (run (replicate 4 NEXT_DETECTION))\<lparr>processComplete := True, progressFill := 100\<rparr> \<and>
   detectionAction (run (replicate 4 NEXT_DETECTION)) = Some SMILE"
  using index_in_bounds [of "replicate 4 NEXT_DETECTION"]
  by (simp add: run_def initialState_def detectionsList_def Let_def numeral_eq_Suc
      detectionAction_def)

section \<open>Properties of the frame handler\<close>

lemma replicate_ten: "replicate 10 x = replicate 9 x @ [x]"
proof -
  have "(10::nat) = Suc 9" by simp
  then show ?thesis by (simp only: replicate_Suc replicate_append_same)
qed

lemma nodCase_short: "length h < 9 \<Longrightarrow> nodCase h f = ([], h @ [rollAngle f])"
  by (simp add: nodCase_def Let_def)

lemma nodCase_buffer:
  "snd (nodCase h f) =
     (if length h \<ge> 10 then tl (h @ [rollAngle f]) else h @ [rollAngle f])"
  by (simp add: nodCase_def Let_def)

lemma nodFrames_short:
  "length h + length fs < 10 \<Longrightarrow>
   nodFrames h fs = (replicate (length fs) [], h @ map rollAngle fs)"
proof (induction fs arbitrary: h)
  case Nil
  show ?case by simp
next
  case (Cons f fs)
  from Cons.prems have "length h < 9" by simp
  then have c: "nodCase h f = ([], h @ [rollAngle f])" by (rule nodCase_short)
  from Cons.prems have "length (h @ [rollAngle f]) + length fs < 10" by simp
  from Cons.IH [OF this] c show ?case by simp
qed

lemma nodFrames_append:
  "nodFrames h (fs @ gs) =
     (fst (nodFrames h fs) @ fst (nodFrames (snd (nodFrames h fs)) gs),
      snd (nodFrames (snd (nodFrames h fs)) gs))"
  by (induction fs arbitrary: h) (simp_all add: split_beta)

subsection \<open>Binary64 rounding and the \<open>NOD\<close> case\<close>

lemma two_powi_Suc: "(2::real) powi (e + 1) = 2 * 2 powi e"
  by (simp add: power_int_add)

lemma two_powi_pred: "(2::real) powi (e - 1) = 2 powi e / 2"
  by (simp add: power_int_diff)

lemma two_powi_mono: "i \<le> j \<Longrightarrow> (2::real) powi i \<le> 2 powi j"
  by (rule power_int_increasing) simp_all

lemma expUp_props:
  "p = 2 powi e \<Longrightarrow> p \<le> a \<Longrightarrow>
   e \<le> expUp k a e p \<and> expUp k a e p \<le> e + int k \<and> 2 powi (expUp k a e p) \<le> a \<and>
   (a < 2 powi (expUp k a e p + 1) \<or> expUp k a e p = e + int k)"
proof (induction k arbitrary: e p)
  case 0
  then show ?case by simp
next
  case (Suc k)
  show ?case
  proof (cases "2 * p \<le> a")
    case True
    have "2 * p = 2 powi (e + 1)" using Suc.prems(1) by (simp add: two_powi_Suc)
    from Suc.IH [OF this True] True show ?thesis by auto
  next
    case False
    with Suc.prems show ?thesis by (simp add: two_powi_Suc)
  qed
qed

lemma expDown_props:
  "p = 2 powi e \<Longrightarrow> a < 2 powi (e + 1) \<Longrightarrow>
   e - int k \<le> expDown k a e p \<and> expDown k a e p \<le> e \<and>
   a < 2 powi (expDown k a e p + 1) \<and>
   (2 powi (expDown k a e p) \<le> a \<or> expDown k a e p = e - int k)"
proof (induction k arbitrary: e p)
  case 0
  then show ?case by simp
next
  case (Suc k)
  show ?case
  proof (cases "p \<le> a")
    case True
    with Suc.prems show ?thesis by simp
  next
    case False
    have p: "p / 2 = 2 powi (e - 1)" using Suc.prems(1) by (simp add: two_powi_pred)
    have "a < 2 powi (e - 1 + 1)" using False Suc.prems(1) by simp
    from Suc.IH [OF p this] False show ?thesis by auto
  qed
qed

lemma exponent_props:
  "- 1022 \<le> exponent a \<and> exponent a \<le> 1023 \<and>
   (2 powi (exponent a) \<le> a \<or> exponent a = - 1022) \<and>
   (a < 2 powi (exponent a + 1) \<or> exponent a = 1023)"
proof (cases "1 \<le> a")
  case True
  then show ?thesis
    using expUp_props [of 1 0 a 1023] by (simp add: exponent_def)
next
  case False
  then show ?thesis
    using expDown_props [of 1 0 a 1022] by (simp add: exponent_def)
qed

lemma exponent_unique:
  assumes "- 1022 \<le> e" "e \<le> 1023" "2 powi e \<le> a" "a < 2 powi (e + 1)"
  shows "exponent a = e"
proof (rule ccontr)
  assume ne: "exponent a \<noteq> e"
  note p = exponent_props [of a]
  show False
  proof (cases "exponent a < e")
    case True
    with assms p have "a < 2 powi (exponent a + 1)" by auto
    also have "\<dots> \<le> 2 powi e" using True by (intro two_powi_mono) simp
    finally show False using assms(3) by simp
  next
    case False
    with ne have gt: "e < exponent a" by simp
    with assms p have "2 powi (exponent a) \<le> a" by auto
    moreover have "2 powi (e + 1) \<le> (2::real) powi (exponent a)"
      using gt by (intro two_powi_mono) simp
    ultimately show False using assms(4) by simp
  qed
qed

lemma roundTiesToEven_bound: "\<bar>of_int (roundTiesToEven t) - t\<bar> \<le> 1 / 2"
  unfolding roundTiesToEven_def Let_def by (auto simp: abs_if) linarith+

lemma two_powi_split: "(2::real) powi (a + b) = 2 powi a * 2 powi b"
  by (simp add: power_int_add)

lemma round64_eval:
  assumes "- 1022 \<le> e" "e \<le> 1022" "2 powi e \<le> \<bar>x\<bar>" "\<bar>x\<bar> < 2 powi (e + 1)"
  shows "round64 x =
     Finite (if x \<ge> 0 then of_int (roundTiesToEven (\<bar>x\<bar> / 2 powi (e - 52))) * 2 powi (e - 52)
             else - (of_int (roundTiesToEven (\<bar>x\<bar> / 2 powi (e - 52))) * 2 powi (e - 52)))"
proof -
  have ex: "exponent \<bar>x\<bar> = e"
    using assms by (intro exponent_unique) simp_all
  define u :: real where "u = 2 powi (e - 52)"
  define t where "t = \<bar>x\<bar> / u"
  have u: "0 < u" by (simp add: u_def)
  have up: "2 powi (e + 1) = u * 9007199254740992"
  proof -
    have "e - 52 + 53 = e + 1" by simp
    from two_powi_split [of "e - 52" 53, unfolded this] show ?thesis
      by (simp add: u_def)
  qed
  have "t < 9007199254740992"
    using assms(4) u unfolding up by (simp add: t_def field_simps)
  moreover have "\<bar>of_int (roundTiesToEven t) - t\<bar> \<le> 1 / 2" by (rule roundTiesToEven_bound)
  ultimately have "of_int (roundTiesToEven t) < (9007199254740993 :: real)" by linarith
  then have "roundTiesToEven t < 9007199254740993" by linarith
  then have "roundTiesToEven t \<le> 9007199254740992" by simp
  then have n: "(of_int (roundTiesToEven t) :: real) \<le> 2 powi 53" by simp
  have "of_int (roundTiesToEven t) * u \<le> 2 powi 53 * u"
    using n u by (intro mult_right_mono) simp_all
  also have "\<dots> = 2 powi (e + 1)"
    unfolding up by simp
  also have "\<dots> \<le> 2 powi 1023" using assms(2) by (intro two_powi_mono) simp
  also have "\<dots> < (2::real) powi 1024" by (intro power_int_strict_increasing) simp_all
  finally have "\<not> of_int (roundTiesToEven t) * u \<ge> 2 powi 1024" by simp
  then show ?thesis
    unfolding round64_def Let_def ex u_def [symmetric] t_def [symmetric] by simp
qed

lemma round64_small:
  assumes "\<bar>x\<bar> \<le> 16384"
  shows "\<exists>y. round64 x = Finite y \<and> \<bar>y - x\<bar> \<le> 2 powi (- 39)"
proof -
  define e where "e = exponent \<bar>x\<bar>"
  define u :: real where "u = 2 powi (e - 52)"
  define t where "t = \<bar>x\<bar> / u"
  define y0 where "y0 = of_int (roundTiesToEven t) * u"
  note p = exponent_props [of "\<bar>x\<bar>", folded e_def]
  have u: "0 < u" by (simp add: u_def)
  have e14: "e \<le> 14"
  proof (rule ccontr)
    assume "\<not> e \<le> 14"
    then have g: "15 \<le> e" by simp
    with p have "2 powi e \<le> \<bar>x\<bar>" by auto
    moreover have "(2::real) powi 15 \<le> 2 powi e" using g by (rule two_powi_mono)
    ultimately show False using assms by simp
  qed
  have "u \<le> 2 powi (- 38)"
    unfolding u_def using e14 by (intro two_powi_mono) simp
  have err: "\<bar>y0 - \<bar>x\<bar>\<bar> \<le> u / 2"
  proof -
    have "y0 - \<bar>x\<bar> = (of_int (roundTiesToEven t) - t) * u"
      using u by (simp add: y0_def t_def field_simps)
    then have "\<bar>y0 - \<bar>x\<bar>\<bar> = \<bar>of_int (roundTiesToEven t) - t\<bar> * u"
      using u by (simp add: abs_mult)
    also have "\<dots> \<le> (1 / 2) * u"
      using roundTiesToEven_bound [of t] u by (intro mult_right_mono) simp_all
    finally show ?thesis by simp
  qed
  have half: "u / 2 \<le> 2 powi (- 39)"
    using \<open>u \<le> 2 powi (- 38)\<close> by simp
  have small: "\<bar>y0 - \<bar>x\<bar>\<bar> \<le> 2 powi (- 39)" using err half by simp
  have "y0 \<le> \<bar>x\<bar> + 2 powi (- 39)" using small by linarith
  also have "\<dots> \<le> 16384 + 1" using assms by (intro add_mono) simp_all
  also have "\<dots> < (2::real) powi 1024"
  proof -
    have "(16385::real) < 2 powi 15" by simp
    also have "\<dots> \<le> 2 powi 1024" by (intro two_powi_mono) simp
    finally show ?thesis by simp
  qed
  finally have fin: "\<not> y0 \<ge> 2 powi 1024" by simp
  have r: "round64 x = Finite (if x \<ge> 0 then y0 else - y0)"
    using fin unfolding round64_def Let_def e_def [symmetric] u_def [symmetric]
      t_def [symmetric] y0_def [symmetric] by simp
  have "\<bar>(if x \<ge> 0 then y0 else - y0) - x\<bar> \<le> 2 powi (- 39)"
    using small by (auto simp: abs_if split: if_splits)
  with r show ?thesis by blast
qed

lemma foldl_f64_sum:
  "foldl (\<lambda>prev curr. f64_add prev (Finite \<bar>curr\<bar>)) a xs =
   foldl (\<lambda>acc v. f64_add acc (Finite v)) a (map abs xs)"
  by (induction xs arbitrary: a) simp_all

lemma nodCase_window:
  assumes "length h = 9"
  shows "nodCase h f =
     (if f64_ge (nodDiff64 h (rollAngle f)) 1.5 then [NEXT_DETECTION] else [],
      h @ [rollAngle f])"
  using assms
  by (simp add: nodCase_def Let_def foldl_f64_sum nodDiff64_def f64_sum_def NOD_minDiff_def)

lemma nodCase_full:
  assumes "length h = 10"
  shows "nodCase h f =
     (if f64_ge (nodDiff64 (tl h) (rollAngle f)) 1.5 then [NEXT_DETECTION] else [],
      tl h @ [rollAngle f])"
proof -
  from assms obtain x t where h: "h = x # t" by (cases h) auto
  with assms have t: "length t = 9" by simp
  show ?thesis
    unfolding h using t
    by (simp add: nodCase_def Let_def foldl_f64_sum nodDiff64_def f64_sum_def NOD_minDiff_def)
qed

lemma nodCase_buffer_spec: "snd (nodCase h f) = fst (nodSpec h (rollAngle f))"
  by (cases h) (simp_all add: nodCase_buffer nodSpec_def Let_def)

lemma f64_sum_snoc: "f64_sum (xs @ [x]) = f64_add (f64_sum xs) (Finite x)"
  by (simp add: f64_sum_def)

lemma sum_list_le_length:
  fixes ys :: "real list"
  assumes "\<forall>x \<in> set ys. 0 \<le> x \<and> x \<le> 1024"
  shows "0 \<le> sum_list ys \<and> sum_list ys \<le> real (length ys) * 1024"
  using assms by (induction ys) (auto simp: algebra_simps)

lemma f64_sum_bound:
  assumes "\<forall>x \<in> set xs. 0 \<le> x \<and> x \<le> 1024" "length xs \<le> 9"
  shows "\<exists>s. f64_sum xs = Finite s \<and>
           \<bar>s - sum_list xs\<bar> \<le> real (length xs) * 2 powi (- 39)"
  using assms
proof (induction xs rule: rev_induct)
  case Nil
  show ?case by (simp add: f64_sum_def)
next
  case (snoc x xs)
  define eps :: real where "eps = 2 powi (- 39)"
  have eps: "0 < eps" "eps \<le> 1" by (simp_all add: eps_def)
  from snoc.prems have xs: "\<forall>x \<in> set xs. 0 \<le> x \<and> x \<le> 1024" and len: "length xs \<le> 8"
    and x: "0 \<le> x" "x \<le> 1024"
    by simp_all
  from snoc.IH [OF xs] len obtain s where s: "f64_sum xs = Finite s"
    and es: "\<bar>s - sum_list xs\<bar> \<le> real (length xs) * eps"
    unfolding eps_def by auto
  note sl = sum_list_le_length [OF xs]
  have l8: "real (length xs) \<le> 8" using len by simp
  have e8: "real (length xs) * eps \<le> 8 * eps"
    using l8 eps by (intro mult_right_mono) simp_all
  have s8: "real (length xs) * 1024 \<le> 8 * 1024"
    using l8 by (intro mult_right_mono) simp_all
  have "\<bar>s + x\<bar> \<le> 16384"
    using es e8 sl s8 x eps by linarith
  from round64_small [OF this] obtain y where y: "round64 (s + x) = Finite y"
    and ey: "\<bar>y - (s + x)\<bar> \<le> eps" unfolding eps_def by blast
  have "f64_sum (xs @ [x]) = Finite y"
    by (simp add: f64_sum_snoc s y)
  moreover have "\<bar>y - sum_list (xs @ [x])\<bar> \<le> real (length (xs @ [x])) * eps"
  proof -
    have "real (length (xs @ [x])) * eps = real (length xs) * eps + eps"
      by (simp add: algebra_simps)
    moreover have "sum_list (xs @ [x]) = sum_list xs + x" by simp
    ultimately show ?thesis using es ey by linarith
  qed
  ultimately show ?case unfolding eps_def by blast
qed

lemma nodDiff64_bound:
  assumes "length xs = 9" "\<forall>x \<in> set xs. \<bar>x\<bar> \<le> 1024" "\<bar>r\<bar> \<le> 1024"
  shows "\<exists>d. nodDiff64 xs r = Finite d \<and>
           \<bar>d - \<bar>sum_list (map abs xs) / 9 - \<bar>r\<bar>\<bar>\<bar> \<le> 3 * 2 powi (- 39)"
proof -
  define eps :: real where "eps = 2 powi (- 39)"
  have eps: "0 < eps" "eps \<le> 1" by (simp_all add: eps_def)
  define S where "S = sum_list (map abs xs)"
  have m: "\<forall>x \<in> set (map abs xs). 0 \<le> x \<and> x \<le> 1024" using assms(2) by simp
  from f64_sum_bound [OF m] assms(1) obtain s where s: "f64_sum (map abs xs) = Finite s"
    and es: "\<bar>s - S\<bar> \<le> 9 * eps" unfolding eps_def S_def by auto
  have S: "0 \<le> S" "S \<le> 9 * 1024"
    using sum_list_le_length [OF m] assms(1) by (simp_all add: S_def)
  have "\<bar>s / 9\<bar> \<le> 16384"
    using es S eps by simp
  from round64_small [OF this] obtain a where a: "round64 (s / 9) = Finite a"
    and ea: "\<bar>a - s / 9\<bar> \<le> eps" unfolding eps_def by blast
  have avg: "f64_div_length (f64_sum (map abs xs)) (length xs) = Finite a"
    by (simp add: s assms(1) a)
  have ea': "\<bar>a - S / 9\<bar> \<le> 2 * eps"
    using es ea by linarith
  have "\<bar>a + - \<bar>r\<bar>\<bar> \<le> 16384"
    using ea' S assms(3) eps by linarith
  from round64_small [OF this] obtain d where d: "round64 (a + - \<bar>r\<bar>) = Finite d"
    and ed: "\<bar>d - (a + - \<bar>r\<bar>)\<bar> \<le> eps" unfolding eps_def by blast
  have "nodDiff64 xs r = Finite \<bar>d\<bar>"
    using d by (simp add: nodDiff64_def avg f64_sub_def)
  moreover have "\<bar>\<bar>d\<bar> - \<bar>S / 9 - \<bar>r\<bar>\<bar>\<bar> \<le> 3 * eps"
    using ed ea' by linarith
  ultimately show ?thesis unfolding eps_def S_def by blast
qed

lemma replicate_nine: "replicate 9 x = [x, x, x, x, x, x, x, x, x]"
  by (simp add: numeral_eq_Suc)

lemma nodDiff64_rounded:
  "nodDiff64 (replicate 9 (3602879701896397 / 2251799813685248))
     (3602879701896397 / 36028797018963968) =
   Finite (6755399441055743 / 4503599627370496)"
proof -
  define a :: real where "a = 3602879701896397 / 2251799813685248"
  define r :: real where "r = 3602879701896397 / 36028797018963968"
  define s2 :: real where "s2 = 3602879701896397 / 1125899906842624"
  define s3 :: real where "s3 = 1351079888211149 / 281474976710656"
  define s4 :: real where "s4 = 3602879701896397 / 562949953421312"
  define s5 :: real where "s5 = 8"
  define s6 :: real where "s6 = 5404319552844595 / 562949953421312"
  define s7 :: real where "s7 = 3152519739159347 / 281474976710656"
  define s8 :: real where "s8 = 7205759403792793 / 562949953421312"
  define s9 :: real where "s9 = 2026619832316723 / 140737488355328"
  define avg :: real where "avg = 7205759403792793 / 4503599627370496"
  define d :: real where "d = 6755399441055743 / 4503599627370496"
  have abs_a: "\<bar>a\<bar> = a" and abs_r: "\<bar>r\<bar> = r" by (simp_all add: a_def r_def)
  have st1: "f64_add (Finite 0) (Finite a) = Finite a"
    by (simp add: a_def round64_eval [where e = 0] roundTiesToEven_def)
  have st2: "f64_add (Finite a) (Finite a) = Finite s2"
    by (simp add: a_def s2_def round64_eval [where e = 1] roundTiesToEven_def)
  have st3: "f64_add (Finite s2) (Finite a) = Finite s3"
    by (simp add: a_def s2_def s3_def round64_eval [where e = 2] roundTiesToEven_def)
  have st4: "f64_add (Finite s3) (Finite a) = Finite s4"
    by (simp add: a_def s3_def s4_def round64_eval [where e = 2] roundTiesToEven_def)
  have st5: "f64_add (Finite s4) (Finite a) = Finite s5"
    by (simp add: a_def s4_def s5_def round64_eval [where e = 3] roundTiesToEven_def)
  have st6: "f64_add (Finite s5) (Finite a) = Finite s6"
    by (simp add: a_def s5_def s6_def round64_eval [where e = 3] roundTiesToEven_def)
  have st7: "f64_add (Finite s6) (Finite a) = Finite s7"
    by (simp add: a_def s6_def s7_def round64_eval [where e = 3] roundTiesToEven_def)
  have st8: "f64_add (Finite s7) (Finite a) = Finite s8"
    by (simp add: a_def s7_def s8_def round64_eval [where e = 3] roundTiesToEven_def)
  have st9: "f64_add (Finite s8) (Finite a) = Finite s9"
    by (simp add: a_def s8_def s9_def round64_eval [where e = 3] roundTiesToEven_def)
  have sum: "f64_sum [a, a, a, a, a, a, a, a, a] = Finite s9"
    unfolding f64_sum_def by (simp only: foldl.simps st1 st2 st3 st4 st5 st6 st7 st8 st9)
  have quot: "f64_div_length (Finite s9) 9 = Finite avg"
    by (simp add: s9_def avg_def round64_eval [where e = 0] roundTiesToEven_def)
  have diff: "f64_sub (Finite avg) (Finite r) = Finite d"
    by (simp add: f64_sub_def avg_def r_def d_def round64_eval [where e = 0]
        roundTiesToEven_def)
  have m: "map abs [a, a, a, a, a, a, a, a, a] = [a, a, a, a, a, a, a, a, a]"
    by (simp add: abs_a)
  have l: "length [a, a, a, a, a, a, a, a, a] = 9" by simp
  have dd: "f64_abs (Finite d) = Finite d" by (simp add: d_def)
  have "nodDiff64 (replicate 9 a) r = Finite d"
    by (simp only: nodDiff64_def replicate_nine m l sum quot abs_r diff dd)
  then show ?thesis unfolding a_def r_def d_def .
qed

lemma nodCase_verdict:
  assumes "length (snd (nodCase h f)) = 10"
  shows "fst (nodCase h f) =
     (if f64_ge (nodDiff64 (take 9 (snd (nodCase h f))) (rollAngle f)) 1.5
      then [NEXT_DETECTION] else [])"
proof -
  have "length h = 9 \<or> length h = 10"
    using assms by (simp add: nodCase_buffer split: if_splits)
  then show ?thesis
  proof
    assume "length h = 9"
    then show ?thesis by (simp add: nodCase_window)
  next
    assume l: "length h = 10"
    then have "length (tl h) = 9" by simp
    then show ?thesis by (simp add: nodCase_full [OF l])
  qed
qed

lemma nodCase_close:
  assumes "length (snd (nodCase h f)) = 10" "\<forall>x \<in> set (snd (nodCase h f)). \<bar>x\<bar> \<le> 1024"
  shows "\<exists>d. nodDiff64 (take 9 (snd (nodCase h f))) (rollAngle f) = Finite d \<and>
     \<bar>d - \<bar>sum_list (map abs (take 9 (snd (nodCase h f)))) / 9 - \<bar>rollAngle f\<bar>\<bar>\<bar>
       \<le> 3 * 2 powi (- 39)"
proof (rule nodDiff64_bound)
  show "length (take 9 (snd (nodCase h f))) = 9" using assms(1) by simp
  show "\<forall>x \<in> set (take 9 (snd (nodCase h f))). \<bar>x\<bar> \<le> 1024"
    using assms(2) by (meson in_set_takeD)
  have "rollAngle f \<in> set (snd (nodCase h f))"
    by (cases h) (simp_all add: nodCase_buffer)
  with assms(2) show "\<bar>rollAngle f\<bar> \<le> 1024" by blast
qed

lemma nodFrames_nine_then_one:
  "nodFrames [] (replicate 9 f @ [g]) =
     (replicate 9 [] @
        [if f64_ge (nodDiff64 (replicate 9 (rollAngle f)) (rollAngle g)) 1.5
         then [NEXT_DETECTION] else []],
      replicate 9 (rollAngle f) @ [rollAngle g])"
proof -
  have a: "nodFrames [] (replicate 9 f) = (replicate 9 [], replicate 9 (rollAngle f))"
    using nodFrames_short [of "[]" "replicate 9 f"] by simp
  have b: "nodCase (replicate 9 (rollAngle f)) g =
     (if f64_ge (nodDiff64 (replicate 9 (rollAngle f)) (rollAngle g)) 1.5
      then [NEXT_DETECTION] else [],
      replicate 9 (rollAngle f) @ [rollAngle g])"
    by (simp add: nodCase_window)
  show ?thesis
    unfolding nodFrames_append a using b by simp
qed

lemma nodDiff64_identical:
  assumes "\<bar>v\<bar> \<le> 1024"
  shows "\<not> f64_ge (nodDiff64 (replicate 9 v) v) 1.5"
proof -
  have "\<exists>d. nodDiff64 (replicate 9 v) v = Finite d \<and>
     \<bar>d - \<bar>sum_list (map abs (replicate 9 v)) / 9 - \<bar>v\<bar>\<bar>\<bar> \<le> 3 * 2 powi (- 39)"
    using assms by (intro nodDiff64_bound) simp_all
  then obtain d where d: "nodDiff64 (replicate 9 v) v = Finite d"
    and e: "\<bar>d - \<bar>sum_list (map abs (replicate 9 v)) / 9 - \<bar>v\<bar>\<bar>\<bar> \<le> 3 * 2 powi (- 39)"
    by blast
  have "sum_list (map abs (replicate 9 v)) / 9 = \<bar>v\<bar>"
    by (simp add: sum_list_replicate)
  with e have "\<bar>d\<bar> \<le> 3 * 2 powi (- 39)" by simp
  moreover have "3 * 2 powi (- 39) \<le> (1::real)" by simp
  ultimately have "d < 1.5" by linarith
  then show ?thesis by (simp add: d)
qed

lemma nodDiff64_zeros_ten: "f64_ge (nodDiff64 (replicate 9 0) 10) 1.5"
proof -
  have "\<exists>d. nodDiff64 (replicate 9 0) 10 = Finite d \<and>
     \<bar>d - \<bar>sum_list (map abs (replicate 9 0)) / 9 - \<bar>10\<bar>\<bar>\<bar> \<le> 3 * 2 powi (- 39)"
    by (intro nodDiff64_bound) simp_all
  then obtain d where d: "nodDiff64 (replicate 9 0) 10 = Finite d"
    and e: "\<bar>d - \<bar>sum_list (map abs (replicate 9 0)) / 9 - \<bar>10\<bar>\<bar>\<bar> \<le> 3 * 2 powi (- 39)"
    by blast
  have "sum_list (map abs (replicate 9 (0::real))) / 9 = 0"
    by (simp add: sum_list_replicate)
  with e have "\<bar>d - 10\<bar> \<le> 3 * 2 powi (- 39)" by simp
  moreover have "3 * 2 powi (- 39) \<le> (1::real)" by simp
  ultimately have "d \<ge> 1.5" by linarith
  then show ?thesis by (simp add: d)
qed

lemma round64_overflow:
  assumes "2 powi 1024 \<le> \<bar>x\<bar>"
  shows "round64 x = (if x > 0 then PosInf else NegInf)"
proof -
  define e where "e = exponent \<bar>x\<bar>"
  note p = exponent_props [of "\<bar>x\<bar>", folded e_def]
  have e: "e = 1023"
  proof (rule ccontr)
    assume "e \<noteq> 1023"
    with p have "e + 1 \<le> 1023" and "\<bar>x\<bar> < 2 powi (e + 1)" by auto
    moreover from this(1) have "(2::real) powi (e + 1) \<le> 2 powi 1024"
      by (intro two_powi_mono) simp
    ultimately show False using assms by linarith
  qed
  define u :: real where "u = 2 powi 971"
  define t where "t = \<bar>x\<bar> / u"
  have u: "0 < u" by (simp add: u_def)
  have split: "(2::real) powi 1024 = 9007199254740992 * u"
    using two_powi_split [of 53 971] by (simp add: u_def)
  have "9007199254740992 \<le> t"
    using assms u unfolding split t_def by (simp add: field_simps)
  moreover have "\<bar>of_int (roundTiesToEven t) - t\<bar> \<le> 1 / 2" by (rule roundTiesToEven_bound)
  ultimately have "(9007199254740991 :: real) < of_int (roundTiesToEven t)" by linarith
  then have "9007199254740991 < roundTiesToEven t" by linarith
  then have "9007199254740992 \<le> roundTiesToEven t" by simp
  then have "(9007199254740992 :: real) \<le> of_int (roundTiesToEven t)" by linarith
  then have "9007199254740992 * u \<le> of_int (roundTiesToEven t) * u"
    using u by (intro mult_right_mono) simp_all
  then have big: "2 powi 1024 \<le> of_int (roundTiesToEven t) * u"
    unfolding split .
  have "exponent \<bar>x\<bar> - 52 = 971" using e by (simp add: e_def)
  then show ?thesis
    using big unfolding round64_def Let_def t_def u_def by simp
qed

lemma round64_two_1023: "round64 (2 ^ 1023) = Finite (2 ^ 1023)"
proof -
  have ex: "exponent \<bar>2 ^ 1023\<bar> = 1023"
    by (intro exponent_unique) simp_all
  have ulp: "(2::real) powi (1023 - 52) = 2 ^ 971" by simp
  have q: "\<bar>2 ^ 1023 :: real\<bar> / 2 ^ 971 = 2 ^ 52"
    by (simp add: power_diff)
  have r: "roundTiesToEven (2 ^ 52) = 2 ^ 52"
    by (simp add: roundTiesToEven_def)
  have y: "(of_int (2 ^ 52) :: real) * 2 ^ 971 = 2 ^ 1023"
    by (simp add: power_add [symmetric])
  have lt: "\<not> (2::real) powi 1024 \<le> 2 ^ 1023" by simp
  show ?thesis
    unfolding round64_def Let_def ex ulp q r y using lt by simp
qed

lemma nodDiff64_overflow: "nodDiff64 (replicate 9 (2 ^ 1023)) (2 ^ 1023) = PosInf"
proof -
  define v :: real where "v = 2 ^ 1023"
  have abs_v: "\<bar>v\<bar> = v" by (simp add: v_def)
  have st1: "f64_add (Finite 0) (Finite v) = Finite v"
    using round64_two_1023 by (simp add: v_def)
  have "2 powi 1024 \<le> \<bar>v + v\<bar>" by (simp add: v_def)
  from round64_overflow [OF this] have st2: "f64_add (Finite v) (Finite v) = PosInf"
    by (simp add: v_def)
  have st3: "f64_add PosInf (Finite v) = PosInf" by simp
  have sum: "f64_sum [v, v, v, v, v, v, v, v, v] = PosInf"
    unfolding f64_sum_def by (simp only: foldl.simps st1 st2 st3)
  have m: "map abs [v, v, v, v, v, v, v, v, v] = [v, v, v, v, v, v, v, v, v]"
    by (simp add: abs_v)
  have "nodDiff64 (replicate 9 v) v = PosInf"
    by (simp only: nodDiff64_def replicate_nine m sum) (simp add: f64_sub_def)
  then show ?thesis unfolding v_def .
qed

lemma overflow_case:
  "\<not> snd (nodSpec (replicate 9 (2 ^ 1023)) (2 ^ 1023)) \<and>
   fst (nodCase (replicate 9 (2 ^ 1023))
     \<lparr>bounds_origin_x = 10, bounds_origin_y = 60, bounds_size_width = 200,
      bounds_size_height = 200, leftEyeOpenProbability = 1, rightEyeOpenProbability = 1,
      smilingProbability = 0, yawAngle = 0, rollAngle = 2 ^ 1023\<rparr>) = [NEXT_DETECTION]"
proof
  show "\<not> snd (nodSpec (replicate 9 (2 ^ 1023)) (2 ^ 1023))"
    by (simp add: nodSpec_def Let_def sum_list_replicate)
  show "fst (nodCase (replicate 9 (2 ^ 1023))
     \<lparr>bounds_origin_x = 10, bounds_origin_y = 60, bounds_size_width = 200,
      bounds_size_height = 200, leftEyeOpenProbability = 1, rightEyeOpenProbability = 1,
      smilingProbability = 0, yawAngle = 0, rollAngle = 2 ^ 1023\<rparr>) = [NEXT_DETECTION]"
    using nodDiff64_overflow by (simp add: nodCase_window)
qed

text \<open>
  C3, as stated, fails. The doubles nearest to 1.6 and to 0.1 are
  \<open>3602879701896397 / 2 ^ 51\<close> and \<open>3602879701896397 / 2 ^ 55\<close>. After nine frames
  with the first and one with the second, the exact mean of the first nine absolute
  values differs from the current one by more than 1.5, so the reference definition
  reports satisfied; the sum of the code is rounded seven times, its difference comes out
  below 1.5, and nothing is dispatched. In the other direction, ten identical values of
  \<open>2 ^ 1023\<close> have exact difference 0, but the sum of the code overflows to infinity
  and \<open>NEXT_DETECTION\<close> is dispatched.
\<close>

theorem nod_exact_mean_counterexample:
  "round64 (3602879701896397 / 2251799813685248) =
     Finite (3602879701896397 / 2251799813685248) \<and>
   round64 (3602879701896397 / 36028797018963968) =
     Finite (3602879701896397 / 36028797018963968) \<and>
   snd (nodSpec (replicate 9 (3602879701896397 / 2251799813685248))
     (3602879701896397 / 36028797018963968)) \<and>
   nodCase (replicate 9 (3602879701896397 / 2251799813685248))
     \<lparr>bounds_origin_x = 10, bounds_origin_y = 60, bounds_size_width = 200,
      bounds_size_height = 200, leftEyeOpenProbability = 1, rightEyeOpenProbability = 1,
      smilingProbability = 0, yawAngle = 0,
      rollAngle = 3602879701896397 / 36028797018963968\<rparr> =
     ([], replicate 9 (3602879701896397 / 2251799813685248) @
          [3602879701896397 / 36028797018963968]) \<and>
   \<not> snd (nodSpec (replicate 9 (2 ^ 1023)) (2 ^ 1023)) \<and>
   fst (nodCase (replicate 9 (2 ^ 1023))
     \<lparr>bounds_origin_x = 10, bounds_origin_y = 60, bounds_size_width = 200,
      bounds_size_height = 200, leftEyeOpenProbability = 1, rightEyeOpenProbability = 1,
      smilingProbability = 0, yawAngle = 0, rollAngle = 2 ^ 1023\<rparr>) = [NEXT_DETECTION]"
proof (intro conjI)
  show "round64 (3602879701896397 / 2251799813685248) =
     Finite (3602879701896397 / 2251799813685248)"
    by (simp add: round64_eval [where e = 0] roundTiesToEven_def)
  show "round64 (3602879701896397 / 36028797018963968) =
     Finite (3602879701896397 / 36028797018963968)"
    by (simp add: round64_eval [where e = "- 4"] roundTiesToEven_def)
  show "snd (nodSpec (replicate 9 (3602879701896397 / 2251799813685248))
     (3602879701896397 / 36028797018963968))"
    by (simp add: nodSpec_def Let_def sum_list_replicate)
  show "nodCase (replicate 9 (3602879701896397 / 2251799813685248))
     \<lparr>bounds_origin_x = 10, bounds_origin_y = 60, bounds_size_width = 200,
      bounds_size_height = 200, leftEyeOpenProbability = 1, rightEyeOpenProbability = 1,
      smilingProbability = 0, yawAngle = 0,
      rollAngle = 3602879701896397 / 36028797018963968\<rparr> =
     ([], replicate 9 (3602879701896397 / 2251799813685248) @
          [3602879701896397 / 36028797018963968])"
    by (simp add: nodCase_window nodDiff64_rounded)
  show "\<not> snd (nodSpec (replicate 9 (2 ^ 1023)) (2 ^ 1023))"
    using overflow_case by (rule conjunct1)
  show "fst (nodCase (replicate 9 (2 ^ 1023))
     \<lparr>bounds_origin_x = 10, bounds_origin_y = 60, bounds_size_width = 200,
      bounds_size_height = 200, leftEyeOpenProbability = 1, rightEyeOpenProbability = 1,
      smilingProbability = 0, yawAngle = 0, rollAngle = 2 ^ 1023\<rparr>) = [NEXT_DETECTION]"
    using overflow_case by (rule conjunct2)
qed

text \<open>
  C3, amended. Each frame appends the current roll angle to the buffer and, beyond 10
  entries, drops the oldest one, as the reference definition does, so a buffer of at most
  10 entries stays so; with fewer than 10 entries nothing is dispatched, whatever the
  values, and so fewer than 10 frames from the empty buffer dispatch nothing. With
  exactly 10 entries \<open>NEXT_DETECTION\<close> is dispatched iff the difference computed in
  binary64 (the sum of the absolute values of the first 9 entries from left to right,
  its quotient by 9, the quotient less the absolute value of the current angle, each
  rounded to nearest) is at least 1.5. When the 10 entries have magnitude at most 1024,
  the computed difference is within \<open>3 * 2 ^ -39\<close> of the exact one, so the frame
  dispatches when the exact difference is at least \<open>1.5 + 3 * 2 ^ -39\<close> and does not
  when it is below \<open>1.5 - 3 * 2 ^ -39\<close>. From the empty buffer, ten frames with the same
  roll angle of magnitude at most 1024 dispatch nothing, and nine frames with roll angle
  0 followed by one with roll angle 10 dispatch \<open>NEXT_DETECTION\<close> on the tenth frame
  only.
\<close>

theorem nod_evaluator:
  "snd (nodCase h f) = fst (nodSpec h (rollAngle f)) \<and>
   snd (nodCase h f) =
     (if length h \<ge> 10 then tl (h @ [rollAngle f]) else h @ [rollAngle f]) \<and>
   (length h \<le> 10 \<longrightarrow> length (snd (nodCase h f)) \<le> 10) \<and>
   (length h < 9 \<longrightarrow> fst (nodCase h f) = []) \<and>
   (length fs < 10 \<longrightarrow> fst (nodFrames [] fs) = replicate (length fs) []) \<and>
   (length (snd (nodCase h f)) = 10 \<longrightarrow>
      fst (nodCase h f) =
        (if f64_ge (nodDiff64 (take 9 (snd (nodCase h f))) (rollAngle f)) 1.5
         then [NEXT_DETECTION] else [])) \<and>
   (length (snd (nodCase h f)) = 10 \<and> (\<forall>x \<in> set (snd (nodCase h f)). \<bar>x\<bar> \<le> 1024) \<longrightarrow>
      (\<exists>d. nodDiff64 (take 9 (snd (nodCase h f))) (rollAngle f) = Finite d \<and>
         \<bar>d - \<bar>sum_list (map abs (take 9 (snd (nodCase h f)))) / 9 - \<bar>rollAngle f\<bar>\<bar>\<bar>
           \<le> 3 * 2 powi (- 39)) \<and>
      (\<bar>sum_list (map abs (take 9 (snd (nodCase h f)))) / 9 - \<bar>rollAngle f\<bar>\<bar>
         \<ge> 1.5 + 3 * 2 powi (- 39) \<longrightarrow> fst (nodCase h f) = [NEXT_DETECTION]) \<and>
      (\<bar>sum_list (map abs (take 9 (snd (nodCase h f)))) / 9 - \<bar>rollAngle f\<bar>\<bar>
         < 1.5 - 3 * 2 powi (- 39) \<longrightarrow> fst (nodCase h f) = [])) \<and>
   (\<bar>v\<bar> \<le> 1024 \<longrightarrow>
      fst (nodFrames [] (replicate 10 (f\<lparr>rollAngle := v\<rparr>))) = replicate 10 []) \<and>
   fst (nodFrames [] (replicate 9 (f\<lparr>rollAngle := 0\<rparr>) @ [f\<lparr>rollAngle := 10\<rparr>])) =
     replicate 9 [] @ [[NEXT_DETECTION]]"
proof -
  let ?b = "snd (nodCase h f)"
  let ?exact = "\<bar>sum_list (map abs (take 9 ?b)) / 9 - \<bar>rollAngle f\<bar>\<bar>"
  have c1: "?b = fst (nodSpec h (rollAngle f))" by (rule nodCase_buffer_spec)
  have c2: "?b = (if length h \<ge> 10 then tl (h @ [rollAngle f]) else h @ [rollAngle f])"
    by (rule nodCase_buffer)
  have c3: "length h \<le> 10 \<longrightarrow> length ?b \<le> 10"
    by (simp add: nodCase_buffer)
  have c4: "length h < 9 \<longrightarrow> fst (nodCase h f) = []"
    by (simp add: nodCase_short)
  have c5: "length fs < 10 \<longrightarrow> fst (nodFrames [] fs) = replicate (length fs) []"
    using nodFrames_short [of "[]" fs] by simp
  have c6: "length ?b = 10 \<longrightarrow>
      fst (nodCase h f) =
        (if f64_ge (nodDiff64 (take 9 ?b) (rollAngle f)) 1.5 then [NEXT_DETECTION] else [])"
    using nodCase_verdict [of h f] by blast
  have c7: "length ?b = 10 \<and> (\<forall>x \<in> set ?b. \<bar>x\<bar> \<le> 1024) \<longrightarrow>
      (\<exists>d. nodDiff64 (take 9 ?b) (rollAngle f) = Finite d \<and>
         \<bar>d - ?exact\<bar> \<le> 3 * 2 powi (- 39)) \<and>
      (?exact \<ge> 1.5 + 3 * 2 powi (- 39) \<longrightarrow> fst (nodCase h f) = [NEXT_DETECTION]) \<and>
      (?exact < 1.5 - 3 * 2 powi (- 39) \<longrightarrow> fst (nodCase h f) = [])"
  proof (intro impI)
    assume a: "length ?b = 10 \<and> (\<forall>x \<in> set ?b. \<bar>x\<bar> \<le> 1024)"
    then have len: "length ?b = 10" and small: "\<forall>x \<in> set ?b. \<bar>x\<bar> \<le> 1024" by simp_all
    from nodCase_close [OF len small] obtain d
      where d: "nodDiff64 (take 9 ?b) (rollAngle f) = Finite d"
        and e: "\<bar>d - ?exact\<bar> \<le> 3 * 2 powi (- 39)" by blast
    have v: "fst (nodCase h f) = (if d \<ge> 1.5 then [NEXT_DETECTION] else [])"
      using nodCase_verdict [OF len] by (simp add: d)
    have up: "fst (nodCase h f) = [NEXT_DETECTION]" if "?exact \<ge> 1.5 + 3 * 2 powi (- 39)"
    proof -
      from that e have "d \<ge> 1.5" by linarith
      then show ?thesis by (simp add: v)
    qed
    have down: "fst (nodCase h f) = []" if "?exact < 1.5 - 3 * 2 powi (- 39)"
    proof -
      from that e have "\<not> d \<ge> 1.5" by linarith
      then show ?thesis by (simp add: v)
    qed
    from d e up down show "(\<exists>d. nodDiff64 (take 9 ?b) (rollAngle f) = Finite d \<and>
         \<bar>d - ?exact\<bar> \<le> 3 * 2 powi (- 39)) \<and>
      (?exact \<ge> 1.5 + 3 * 2 powi (- 39) \<longrightarrow> fst (nodCase h f) = [NEXT_DETECTION]) \<and>
      (?exact < 1.5 - 3 * 2 powi (- 39) \<longrightarrow> fst (nodCase h f) = [])"
      by blast
  qed
  have c8: "\<bar>v\<bar> \<le> 1024 \<longrightarrow>
      fst (nodFrames [] (replicate 10 (f\<lparr>rollAngle := v\<rparr>))) = replicate 10 []"
  proof
    assume "\<bar>v\<bar> \<le> 1024"
    from nodDiff64_identical [OF this] show
      "fst (nodFrames [] (replicate 10 (f\<lparr>rollAngle := v\<rparr>))) = replicate 10 []"
      unfolding replicate_ten by (simp add: nodFrames_nine_then_one)
  qed
  have c9: "fst (nodFrames [] (replicate 9 (f\<lparr>rollAngle := 0\<rparr>) @ [f\<lparr>rollAngle := 10\<rparr>])) =
     replicate 9 [] @ [[NEXT_DETECTION]]"
    using nodDiff64_zeros_ten by (simp add: nodFrames_nine_then_one)
  from c1 c2 c3 c4 c5 c6 c7 c8 c9 show ?thesis by (intro conjI)
qed

theorem nod_evaluator_witness:
  "length (replicate 9 (0::real)) \<le> 10 \<and>
   length (snd (nodCase (replicate 9 0)
     \<lparr>bounds_origin_x = 0, bounds_origin_y = 50, bounds_size_width = 200,
      bounds_size_height = 200, leftEyeOpenProbability = 1, rightEyeOpenProbability = 1,
      smilingProbability = 0, yawAngle = 0, rollAngle = 10\<rparr>)) = 10 \<and>
   snd (nodCase (replicate 9 0)
     \<lparr>bounds_origin_x = 0, bounds_origin_y = 50, bounds_size_width = 200,
      bounds_size_height = 200, leftEyeOpenProbability = 1, rightEyeOpenProbability = 1,
      smilingProbability = 0, yawAngle = 0, rollAngle = 10\<rparr>) = replicate 9 0 @ [10] \<and>
   fst (nodCase (replicate 9 0)
     \<lparr>bounds_origin_x = 0, bounds_origin_y = 50, bounds_size_width = 200,
      bounds_size_height = 200, leftEyeOpenProbability = 1, rightEyeOpenProbability = 1,
      smilingProbability = 0, yawAngle = 0, rollAngle = 10\<rparr>) = [NEXT_DETECTION] \<and>
   length [0, 0, 0 :: real] < 9 \<and>
   fst (nodCase [0, 0, 0]
     \<lparr>bounds_origin_x = 0, bounds_origin_y = 50, bounds_size_width = 200,
      bounds_size_height = 200, leftEyeOpenProbability = 1, rightEyeOpenProbability = 1,
      smilingProbability = 0, yawAngle = 0, rollAngle = 10\<rparr>) = [] \<and>
   length [\<lparr>bounds_origin_x = 0, bounds_origin_y = 50, bounds_size_width = 200,
      bounds_size_height = 200, leftEyeOpenProbability = 1, rightEyeOpenProbability = 1,
      smilingProbability = 0, yawAngle = 0, rollAngle = 10\<rparr>] < 10 \<and>
   fst (nodFrames []
     [\<lparr>bounds_origin_x = 0, bounds_origin_y = 50, bounds_size_width = 200,
      bounds_size_height = 200, leftEyeOpenProbability = 1, rightEyeOpenProbability = 1,
      smilingProbability = 0, yawAngle = 0, rollAngle = 10\<rparr>]) = [[]] \<and>
   \<bar>7 :: real\<bar> \<le> 1024 \<and>
   fst (nodFrames [] (replicate 10
     \<lparr>bounds_origin_x = 0, bounds_origin_y = 50, bounds_size_width = 200,
      bounds_size_height = 200, leftEyeOpenProbability = 1, rightEyeOpenProbability = 1,
      smilingProbability = 0, yawAngle = 0, rollAngle = 7\<rparr>)) = replicate 10 [] \<and>
   snd (nodCase (replicate 9 9)
     \<lparr>bounds_origin_x = 0, bounds_origin_y = 50, bounds_size_width = 200,
      bounds_size_height = 200, leftEyeOpenProbability = 1, rightEyeOpenProbability = 1,
      smilingProbability = 0, yawAngle = 0, rollAngle = 10\<rparr>) = replicate 9 9 @ [10] \<and>
   fst (nodCase (replicate 9 9)
     \<lparr>bounds_origin_x = 0, bounds_origin_y = 50, bounds_size_width = 200,
      bounds_size_height = 200, leftEyeOpenProbability = 1, rightEyeOpenProbability = 1,
      smilingProbability = 0, yawAngle = 0, rollAngle = 10\<rparr>) = []"
proof -
  let ?F = "\<lparr>bounds_origin_x = 0, bounds_origin_y = 50, bounds_size_width = 200,
      bounds_size_height = 200, leftEyeOpenProbability = 1, rightEyeOpenProbability = 1,
      smilingProbability = 0, yawAngle = 0, rollAngle = 10\<rparr>"
  have full: "snd (nodCase (replicate 9 0) ?F) = replicate 9 0 @ [10]"
    by (simp add: nodCase_buffer)
  have len: "length (snd (nodCase (replicate 9 0) ?F)) = 10"
    unfolding full by simp
  have small: "\<forall>x \<in> set (snd (nodCase (replicate 9 0) ?F)). \<bar>x\<bar> \<le> 1024"
    unfolding full by simp
  have exact: "\<bar>sum_list (map abs (take 9 (snd (nodCase (replicate 9 0) ?F)))) / 9
      - \<bar>rollAngle ?F\<bar>\<bar> = 10"
    unfolding full by (simp add: sum_list_replicate)
  have a: "fst (nodCase (replicate 9 0) ?F) = [NEXT_DETECTION]"
    using nod_evaluator [of "replicate 9 0" ?F "[?F]" 7, THEN conjunct2, THEN conjunct2,
        THEN conjunct2, THEN conjunct2, THEN conjunct2, THEN conjunct2, THEN conjunct1]
      len small
    unfolding exact by simp
  have b: "fst (nodCase [0, 0, 0] ?F) = []"
    using nod_evaluator [of "[0, 0, 0]" ?F "[?F]" 7, THEN conjunct2, THEN conjunct2,
        THEN conjunct2, THEN conjunct1]
    by simp
  have c: "fst (nodFrames [] [?F]) = [[]]"
    using nod_evaluator [of "[0, 0, 0]" ?F "[?F]" 7, THEN conjunct2, THEN conjunct2,
        THEN conjunct2, THEN conjunct2, THEN conjunct1]
    by simp
  have d: "fst (nodFrames [] (replicate 10 (?F\<lparr>rollAngle := 7\<rparr>))) = replicate 10 []"
    using nod_evaluator [of "[0, 0, 0]" ?F "[?F]" 7, THEN conjunct2, THEN conjunct2,
        THEN conjunct2, THEN conjunct2, THEN conjunct2, THEN conjunct2, THEN conjunct2,
        THEN conjunct1]
    by simp
  have full': "snd (nodCase (replicate 9 9) ?F) = replicate 9 9 @ [10]"
    by (simp add: nodCase_buffer)
  have len': "length (snd (nodCase (replicate 9 9) ?F)) = 10"
    unfolding full' by simp
  have small': "\<forall>x \<in> set (snd (nodCase (replicate 9 9) ?F)). \<bar>x\<bar> \<le> 1024"
    unfolding full' by simp
  have exact': "\<bar>sum_list (map abs (take 9 (snd (nodCase (replicate 9 9) ?F)))) / 9
      - \<bar>rollAngle ?F\<bar>\<bar> = 1"
    unfolding full' by (simp add: sum_list_replicate)
  have e: "fst (nodCase (replicate 9 9) ?F) = []"
    using nod_evaluator [of "replicate 9 9" ?F "[?F]" 7, THEN conjunct2, THEN conjunct2,
        THEN conjunct2, THEN conjunct2, THEN conjunct2, THEN conjunct2, THEN conjunct1]
      len' small'
    unfolding exact' by simp
  from full len a b c d full' e show ?thesis by simp
qed

subsection \<open>Qualification, size test and reset\<close>

lemma handleFaceDetection_other_count:
  "length faces \<noteq> 1 \<Longrightarrow> handleFaceDetection c w s buf faces = ([FACE_DETECTED No], buf)"
  by (simp add: handleFaceDetection_def)

lemma handleFaceDetection_one:
  "length faces = 1 \<Longrightarrow>
   handleFaceDetection c w s buf faces =
     (if \<not> c (PREVIEW_RECT w) (faceRectSmallerOf (faces ! 0)) then ([FACE_DETECTED No], buf)
      else if faceDetected s = No \<and> bounds_size_width (faces ! 0) \<ge> 235
                \<and> bounds_size_height (faces ! 0) \<ge> 235
      then ([FACE_TOO_BIG Yes], buf)
      else
        ((if faceDetected s = No \<and> faceTooBig s = Yes then [FACE_TOO_BIG No] else []) @
         (if faceDetected s = No then [FACE_DETECTED Yes] else []) @
         fst (evaluateChallenge s buf (faces ! 0)),
         snd (evaluateChallenge s buf (faces ! 0))))"
  by (simp add: handleFaceDetection_def Let_def faceRectOf_def PREVIEW_SIZE_def split_beta)

lemma evaluateChallenge_buffer:
  "snd (evaluateChallenge s buf face) = buf \<or>
   snd (evaluateChallenge s buf face) =
     (if length buf \<ge> 10 then tl (buf @ [rollAngle face]) else buf @ [rollAngle face])"
  by (simp add: evaluateChallenge_def nodCase_buffer Let_def
      split: option.split DetectionActions.split)

text \<open>
  C6. With the current challenge \<open>BLINK\<close>, \<open>TURN_HEAD_LEFT\<close>, \<open>TURN_HEAD_RIGHT\<close> or
  \<open>SMILE\<close>, the evaluator leaves the buffer as it is and dispatches \<open>NEXT_DETECTION\<close>
  iff, respectively, both eye-open probabilities are at most 0.3, the yaw angle is at
  most -15, the yaw angle is at least 15, the smiling probability is at least 0.7. A yaw
  angle of -20 satisfies \<open>TURN_HEAD_LEFT\<close> and does not satisfy \<open>TURN_HEAD_RIGHT\<close>.
\<close>

theorem stateless_evaluators:
  "(detectionAction s = Some BLINK \<longrightarrow>
      evaluateChallenge s buf f =
        (if leftEyeOpenProbability f \<le> 0.3 \<and> rightEyeOpenProbability f \<le> 0.3
         then [NEXT_DETECTION] else [], buf)) \<and>
   (detectionAction s = Some TURN_HEAD_LEFT \<longrightarrow>
      evaluateChallenge s buf f =
        (if yawAngle f \<le> - 15 then [NEXT_DETECTION] else [], buf)) \<and>
   (detectionAction s = Some TURN_HEAD_RIGHT \<longrightarrow>
      evaluateChallenge s buf f =
        (if yawAngle f \<ge> 15 then [NEXT_DETECTION] else [], buf)) \<and>
   (detectionAction s = Some SMILE \<longrightarrow>
      evaluateChallenge s buf f =
        (if smilingProbability f \<ge> 0.7 then [NEXT_DETECTION] else [], buf)) \<and>
   (detectionAction s = Some TURN_HEAD_LEFT \<and> yawAngle f = - 20 \<longrightarrow>
      fst (evaluateChallenge s buf f) = [NEXT_DETECTION]) \<and>
   (detectionAction s = Some TURN_HEAD_RIGHT \<and> yawAngle f = - 20 \<longrightarrow>
      fst (evaluateChallenge s buf f) = [])"
  by (simp add: evaluateChallenge_def Let_def BLINK_minProbability_def
      TURN_HEAD_LEFT_maxAngle_def TURN_HEAD_RIGHT_minAngle_def SMILE_minProbability_def)

theorem stateless_evaluators_witness:
  "detectionAction (run [FACE_DETECTED Yes]) = Some BLINK \<and>
   evaluateChallenge (run [FACE_DETECTED Yes]) [1, 2]
     \<lparr>bounds_origin_x = 10, bounds_origin_y = 60, bounds_size_width = 200,
      bounds_size_height = 200, leftEyeOpenProbability = 0.1,
      rightEyeOpenProbability = 0.2, smilingProbability = 0.9, yawAngle = - 20,
      rollAngle = 0\<rparr> = ([NEXT_DETECTION], [1, 2]) \<and>
   detectionAction (run [FACE_DETECTED Yes, NEXT_DETECTION]) = Some TURN_HEAD_LEFT \<and>
   evaluateChallenge (run [FACE_DETECTED Yes, NEXT_DETECTION]) [1, 2]
     \<lparr>bounds_origin_x = 10, bounds_origin_y = 60, bounds_size_width = 200,
      bounds_size_height = 200, leftEyeOpenProbability = 0.1,
      rightEyeOpenProbability = 0.2, smilingProbability = 0.9, yawAngle = - 20,
      rollAngle = 0\<rparr> = ([NEXT_DETECTION], [1, 2]) \<and>
   detectionAction (run [FACE_DETECTED Yes, NEXT_DETECTION, NEXT_DETECTION]) =
     Some TURN_HEAD_RIGHT \<and>
   evaluateChallenge (run [FACE_DETECTED Yes, NEXT_DETECTION, NEXT_DETECTION]) [1, 2]
     \<lparr>bounds_origin_x = 10, bounds_origin_y = 60, bounds_size_width = 200,
      bounds_size_height = 200, leftEyeOpenProbability = 0.1,
      rightEyeOpenProbability = 0.2, smilingProbability = 0.9, yawAngle = - 20,
      rollAngle = 0\<rparr> = ([], [1, 2]) \<and>
   detectionAction (run [NEXT_DETECTION, NEXT_DETECTION, NEXT_DETECTION, NEXT_DETECTION]) =
     Some SMILE \<and>
   evaluateChallenge (run [NEXT_DETECTION, NEXT_DETECTION, NEXT_DETECTION, NEXT_DETECTION])
     [1, 2]
     \<lparr>bounds_origin_x = 10, bounds_origin_y = 60, bounds_size_width = 200,
      bounds_size_height = 200, leftEyeOpenProbability = 0.1,
      rightEyeOpenProbability = 0.2, smilingProbability = 0.9, yawAngle = - 20,
      rollAngle = 0\<rparr> = ([NEXT_DETECTION], [1, 2])"
proof -
  let ?F = "\<lparr>bounds_origin_x = 10, bounds_origin_y = 60, bounds_size_width = 200,
      bounds_size_height = 200, leftEyeOpenProbability = 0.1,
      rightEyeOpenProbability = 0.2, smilingProbability = 0.9, yawAngle = - 20,
      rollAngle = 0\<rparr>"
  have b: "detectionAction (run [FACE_DETECTED Yes]) = Some BLINK"
    and l: "detectionAction (run [FACE_DETECTED Yes, NEXT_DETECTION]) = Some TURN_HEAD_LEFT"
    and r: "detectionAction (run [FACE_DETECTED Yes, NEXT_DETECTION, NEXT_DETECTION]) =
      Some TURN_HEAD_RIGHT"
    and m: "detectionAction
        (run [NEXT_DETECTION, NEXT_DETECTION, NEXT_DETECTION, NEXT_DETECTION]) = Some SMILE"
    by (simp_all add: run_def detectionAction_def initialState_def detectionsList_def Let_def)
  have "evaluateChallenge (run [FACE_DETECTED Yes]) [1, 2] ?F = ([NEXT_DETECTION], [1, 2])"
    using stateless_evaluators [of "run [FACE_DETECTED Yes]" "[1, 2]" ?F, THEN conjunct1] b
    by simp
  moreover have "evaluateChallenge (run [FACE_DETECTED Yes, NEXT_DETECTION]) [1, 2] ?F =
      ([NEXT_DETECTION], [1, 2])"
    using stateless_evaluators [of "run [FACE_DETECTED Yes, NEXT_DETECTION]" "[1, 2]" ?F,
        THEN conjunct2, THEN conjunct1] l
    by simp
  moreover have
    "evaluateChallenge (run [FACE_DETECTED Yes, NEXT_DETECTION, NEXT_DETECTION]) [1, 2] ?F =
      ([], [1, 2])"
    using stateless_evaluators
        [of "run [FACE_DETECTED Yes, NEXT_DETECTION, NEXT_DETECTION]" "[1, 2]" ?F,
        THEN conjunct2, THEN conjunct2, THEN conjunct1] r
    by simp
  moreover have
    "evaluateChallenge (run [NEXT_DETECTION, NEXT_DETECTION, NEXT_DETECTION, NEXT_DETECTION])
       [1, 2] ?F = ([NEXT_DETECTION], [1, 2])"
    using stateless_evaluators
        [of "run [NEXT_DETECTION, NEXT_DETECTION, NEXT_DETECTION, NEXT_DETECTION]" "[1, 2]" ?F,
        THEN conjunct2, THEN conjunct2, THEN conjunct2, THEN conjunct1] m
    by simp
  ultimately show ?thesis using b l r m by simp
qed

text \<open>
  C7. For a frame with one face, the adjusted rectangle has the origin of the face
  rectangle and its width and height less 50; the handler applies \<open>contains\<close> to the
  preview rectangle as \<open>outside\<close> and the adjusted rectangle as \<open>inside\<close>. When the
  test fails the handler dispatches \<open>FACE_DETECTED(no)\<close> and nothing else, whatever the
  state, and leaves the buffer as it is; when it succeeds \<open>FACE_DETECTED(no)\<close> is not
  dispatched.
\<close>

theorem qualification:
  "faceRectSmallerOf face =
     \<lparr>minX = bounds_origin_x face, minY = bounds_origin_y face,
      width = bounds_size_width face - 50, height = bounds_size_height face - 50\<rparr> \<and>
   PREVIEW_RECT w = \<lparr>minX = (w - 325) / 2, minY = 50, width = 325, height = 325\<rparr> \<and>
   (\<not> c (PREVIEW_RECT w) (faceRectSmallerOf face) \<longrightarrow>
      handleFaceDetection c w s buf [face] = ([FACE_DETECTED No], buf)) \<and>
   (c (PREVIEW_RECT w) (faceRectSmallerOf face) \<longrightarrow>
      FACE_DETECTED No \<notin> set (fst (handleFaceDetection c w s buf [face])))"
proof (intro conjI impI)
  show "faceRectSmallerOf face =
     \<lparr>minX = bounds_origin_x face, minY = bounds_origin_y face,
      width = bounds_size_width face - 50, height = bounds_size_height face - 50\<rparr>"
    by (simp add: faceRectSmallerOf_def faceRectOf_def edgeOffset_def)
  show "PREVIEW_RECT w = \<lparr>minX = (w - 325) / 2, minY = 50, width = 325, height = 325\<rparr>"
    by (simp add: PREVIEW_RECT_def PREVIEW_SIZE_def)
  show "handleFaceDetection c w s buf [face] = ([FACE_DETECTED No], buf)"
    if "\<not> c (PREVIEW_RECT w) (faceRectSmallerOf face)"
    using that by (simp add: handleFaceDetection_one)
  show "FACE_DETECTED No \<notin> set (fst (handleFaceDetection c w s buf [face]))"
    if "c (PREVIEW_RECT w) (faceRectSmallerOf face)"
    using that evaluateChallenge_dispatches [of s buf face]
    by (auto simp add: handleFaceDetection_one)
qed

theorem qualification_witness:
  "\<not> contains (PREVIEW_RECT 325)
       (faceRectSmallerOf
         \<lparr>bounds_origin_x = 0, bounds_origin_y = 50, bounds_size_width = 400,
          bounds_size_height = 400, leftEyeOpenProbability = 1,
          rightEyeOpenProbability = 1, smilingProbability = 0, yawAngle = 0,
          rollAngle = 0\<rparr>) \<and>
   handleFaceDetection contains 325 initialState [1, 2]
     [\<lparr>bounds_origin_x = 0, bounds_origin_y = 50, bounds_size_width = 400,
       bounds_size_height = 400, leftEyeOpenProbability = 1,
       rightEyeOpenProbability = 1, smilingProbability = 0, yawAngle = 0,
       rollAngle = 0\<rparr>] = ([FACE_DETECTED No], [1, 2]) \<and>
   contains (PREVIEW_RECT 325)
       (faceRectSmallerOf
         \<lparr>bounds_origin_x = 0, bounds_origin_y = 50, bounds_size_width = 375,
          bounds_size_height = 375, leftEyeOpenProbability = 1,
          rightEyeOpenProbability = 1, smilingProbability = 0, yawAngle = 0,
          rollAngle = 0\<rparr>) \<and>
   FACE_DETECTED No \<notin> set (fst (handleFaceDetection contains 325 initialState [1, 2]
     [\<lparr>bounds_origin_x = 0, bounds_origin_y = 50, bounds_size_width = 375,
       bounds_size_height = 375, leftEyeOpenProbability = 1,
       rightEyeOpenProbability = 1, smilingProbability = 0, yawAngle = 0,
       rollAngle = 0\<rparr>]))"
proof -
  let ?A = "\<lparr>bounds_origin_x = 0, bounds_origin_y = 50, bounds_size_width = 400,
       bounds_size_height = 400, leftEyeOpenProbability = 1,
       rightEyeOpenProbability = 1, smilingProbability = 0, yawAngle = 0,
       rollAngle = 0\<rparr>"
  let ?C = "\<lparr>bounds_origin_x = 0, bounds_origin_y = 50, bounds_size_width = 375,
       bounds_size_height = 375, leftEyeOpenProbability = 1,
       rightEyeOpenProbability = 1, smilingProbability = 0, yawAngle = 0,
       rollAngle = 0\<rparr>"
  have out: "\<not> contains (PREVIEW_RECT 325) (faceRectSmallerOf ?A)"
    by (simp add: contains_def PREVIEW_RECT_def PREVIEW_SIZE_def faceRectSmallerOf_def
        faceRectOf_def edgeOffset_def)
  have inside: "contains (PREVIEW_RECT 325) (faceRectSmallerOf ?C)"
    by (simp add: contains_def PREVIEW_RECT_def PREVIEW_SIZE_def faceRectSmallerOf_def
        faceRectOf_def edgeOffset_def)
  have "handleFaceDetection contains 325 initialState [1, 2] [?A] =
      ([FACE_DETECTED No], [1, 2])"
    using qualification [of ?A 325 contains initialState "[1, 2]", THEN conjunct2,
        THEN conjunct2, THEN conjunct1] out
    by simp
  moreover have
    "FACE_DETECTED No \<notin> set (fst (handleFaceDetection contains 325 initialState [1, 2] [?C]))"
    using qualification [of ?C 325 contains initialState "[1, 2]", THEN conjunct2,
        THEN conjunct2, THEN conjunct2] inside
    by simp
  ultimately show ?thesis using out inside by simp
qed

text \<open>
  C8. \<open>PREVIEW_SIZE - 90\<close> is 235. On a qualifying frame (one face, contained) with
  \<open>faceDetected = no\<close>: if the unadjusted width and height are both at least 235 the
  handler dispatches \<open>FACE_TOO_BIG(yes)\<close> only and evaluates no challenge; otherwise it
  dispatches \<open>FACE_TOO_BIG(no)\<close> if \<open>faceTooBig\<close> was \<open>yes\<close>, then
  \<open>FACE_DETECTED(yes)\<close>, then what the challenge evaluation dispatches. On a qualifying
  frame with \<open>faceDetected = yes\<close> only the challenge is evaluated, and on no frame with
  \<open>faceDetected = yes\<close> is a \<open>FACE_TOO_BIG\<close> event dispatched.
\<close>

theorem oversize_test:
  "PREVIEW_SIZE - 90 = 235 \<and>
   (length faces = 1 \<and> c (PREVIEW_RECT w) (faceRectSmallerOf (faces ! 0)) \<and>
    faceDetected s = No \<longrightarrow>
      handleFaceDetection c w s buf faces =
        (if bounds_size_width (faces ! 0) \<ge> 235 \<and> bounds_size_height (faces ! 0) \<ge> 235
         then ([FACE_TOO_BIG Yes], buf)
         else
           ((if faceTooBig s = Yes then [FACE_TOO_BIG No] else []) @ [FACE_DETECTED Yes] @
            fst (evaluateChallenge s buf (faces ! 0)),
            snd (evaluateChallenge s buf (faces ! 0))))) \<and>
   (length faces = 1 \<and> c (PREVIEW_RECT w) (faceRectSmallerOf (faces ! 0)) \<and>
    faceDetected s = Yes \<longrightarrow>
      handleFaceDetection c w s buf faces = evaluateChallenge s buf (faces ! 0)) \<and>
   (faceDetected s = Yes \<longrightarrow>
      FACE_TOO_BIG Yes \<notin> set (fst (handleFaceDetection c w s buf faces)) \<and>
      FACE_TOO_BIG No \<notin> set (fst (handleFaceDetection c w s buf faces)))"
proof (intro conjI impI)
  show "PREVIEW_SIZE - 90 = 235" by (simp add: PREVIEW_SIZE_def)
  show "handleFaceDetection c w s buf faces =
        (if bounds_size_width (faces ! 0) \<ge> 235 \<and> bounds_size_height (faces ! 0) \<ge> 235
         then ([FACE_TOO_BIG Yes], buf)
         else
           ((if faceTooBig s = Yes then [FACE_TOO_BIG No] else []) @ [FACE_DETECTED Yes] @
            fst (evaluateChallenge s buf (faces ! 0)),
            snd (evaluateChallenge s buf (faces ! 0))))"
    if "length faces = 1 \<and> c (PREVIEW_RECT w) (faceRectSmallerOf (faces ! 0)) \<and>
        faceDetected s = No"
    using that by (simp add: handleFaceDetection_one)
  show "handleFaceDetection c w s buf faces = evaluateChallenge s buf (faces ! 0)"
    if "length faces = 1 \<and> c (PREVIEW_RECT w) (faceRectSmallerOf (faces ! 0)) \<and>
        faceDetected s = Yes"
    using that by (simp add: handleFaceDetection_one)
  show "FACE_TOO_BIG Yes \<notin> set (fst (handleFaceDetection c w s buf faces))"
    if y: "faceDetected s = Yes"
    using handleFaceDetection_detected [OF y, of c w buf faces]
      evaluateChallenge_dispatches [of s buf "faces ! 0"]
    by auto
  show "FACE_TOO_BIG No \<notin> set (fst (handleFaceDetection c w s buf faces))"
    if y: "faceDetected s = Yes"
    using handleFaceDetection_detected [OF y, of c w buf faces]
      evaluateChallenge_dispatches [of s buf "faces ! 0"]
    by auto
qed

theorem oversize_test_witness:
  "handleFaceDetection contains 325 initialState [1, 2]
     [\<lparr>bounds_origin_x = 0, bounds_origin_y = 50, bounds_size_width = 375,
       bounds_size_height = 375, leftEyeOpenProbability = 1,
       rightEyeOpenProbability = 1, smilingProbability = 0, yawAngle = 0,
       rollAngle = 0\<rparr>] = ([FACE_TOO_BIG Yes], [1, 2]) \<and>
   handleFaceDetection contains 325 (run [FACE_TOO_BIG Yes]) [1, 2]
     [\<lparr>bounds_origin_x = 10, bounds_origin_y = 60, bounds_size_width = 200,
       bounds_size_height = 200, leftEyeOpenProbability = 1,
       rightEyeOpenProbability = 1, smilingProbability = 0, yawAngle = 0,
       rollAngle = 0\<rparr>] = ([FACE_TOO_BIG No, FACE_DETECTED Yes], [1, 2]) \<and>
   handleFaceDetection contains 325 (run [FACE_DETECTED Yes]) [1, 2]
     [\<lparr>bounds_origin_x = 0, bounds_origin_y = 50, bounds_size_width = 375,
       bounds_size_height = 375, leftEyeOpenProbability = 1,
       rightEyeOpenProbability = 1, smilingProbability = 0, yawAngle = 0,
       rollAngle = 0\<rparr>] = ([], [1, 2]) \<and>
   FACE_TOO_BIG Yes \<notin> set (fst (handleFaceDetection contains 325 (run [FACE_DETECTED Yes])
     [1, 2]
     [\<lparr>bounds_origin_x = 0, bounds_origin_y = 50, bounds_size_width = 375,
       bounds_size_height = 375, leftEyeOpenProbability = 1,
       rightEyeOpenProbability = 1, smilingProbability = 0, yawAngle = 0,
       rollAngle = 0\<rparr>]))"
proof -
  let ?B = "\<lparr>bounds_origin_x = 10, bounds_origin_y = 60, bounds_size_width = 200,
       bounds_size_height = 200, leftEyeOpenProbability = 1,
       rightEyeOpenProbability = 1, smilingProbability = 0, yawAngle = 0,
       rollAngle = 0\<rparr>"
  let ?C = "\<lparr>bounds_origin_x = 0, bounds_origin_y = 50, bounds_size_width = 375,
       bounds_size_height = 375, leftEyeOpenProbability = 1,
       rightEyeOpenProbability = 1, smilingProbability = 0, yawAngle = 0,
       rollAngle = 0\<rparr>"
  have inB: "contains (PREVIEW_RECT 325) (faceRectSmallerOf ([?B] ! 0))"
    and inC: "contains (PREVIEW_RECT 325) (faceRectSmallerOf ([?C] ! 0))"
    by (simp_all add: contains_def PREVIEW_RECT_def PREVIEW_SIZE_def faceRectSmallerOf_def
        faceRectOf_def edgeOffset_def)
  have s0: "faceDetected initialState = No"
    and s1: "faceDetected (run [FACE_TOO_BIG Yes]) = No"
    and s1': "faceTooBig (run [FACE_TOO_BIG Yes]) = Yes"
    and s2: "faceDetected (run [FACE_DETECTED Yes]) = Yes"
    by (simp_all add: run_def initialState_def)
  have blink1: "detectionAction (run [FACE_TOO_BIG Yes]) = Some BLINK"
    and blink2: "detectionAction (run [FACE_DETECTED Yes]) = Some BLINK"
    by (simp_all add: run_def detectionAction_def initialState_def detectionsList_def)
  have e1: "evaluateChallenge (run [FACE_TOO_BIG Yes]) [1, 2] ?B = ([], [1, 2])"
    and e2: "evaluateChallenge (run [FACE_DETECTED Yes]) [1, 2] ?C = ([], [1, 2])"
    by (simp_all add: evaluateChallenge_def blink1 blink2 BLINK_minProbability_def)
  have "handleFaceDetection contains 325 initialState [1, 2] [?C] =
      ([FACE_TOO_BIG Yes], [1, 2])"
    using oversize_test [of "[?C]" contains 325 initialState "[1, 2]", THEN conjunct2,
        THEN conjunct1] inC s0
    by simp
  moreover have "handleFaceDetection contains 325 (run [FACE_TOO_BIG Yes]) [1, 2] [?B] =
      ([FACE_TOO_BIG No, FACE_DETECTED Yes], [1, 2])"
    using oversize_test [of "[?B]" contains 325 "run [FACE_TOO_BIG Yes]" "[1, 2]",
        THEN conjunct2, THEN conjunct1] inB s1 s1' e1
    by simp
  moreover have "handleFaceDetection contains 325 (run [FACE_DETECTED Yes]) [1, 2] [?C] =
      ([], [1, 2])"
    using oversize_test [of "[?C]" contains 325 "run [FACE_DETECTED Yes]" "[1, 2]",
        THEN conjunct2, THEN conjunct2, THEN conjunct1] inC s2 e2
    by simp
  moreover have "FACE_TOO_BIG Yes \<notin>
      set (fst (handleFaceDetection contains 325 (run [FACE_DETECTED Yes]) [1, 2] [?C]))"
    using oversize_test [of "[?C]" contains 325 "run [FACE_DETECTED Yes]" "[1, 2]",
        THEN conjunct2, THEN conjunct2, THEN conjunct2] s2
    by simp
  ultimately show ?thesis by simp
qed

text \<open>
  C9. On a frame whose face count is not 1 or whose face fails containment the handler
  dispatches \<open>FACE_DETECTED(no)\<close> and returns the buffer as it received it, so the frame
  ends in the initial state with the roll-angle history unchanged; whenever
  \<open>FACE_DETECTED(no)\<close> is dispatched the buffer is unchanged. No frame clears the
  buffer: after a frame it is the buffer before, or that buffer with the current roll
  angle appended and, from 10 entries on, the oldest entry dropped.
\<close>

theorem history_survives_reset:
  "(length faces \<noteq> 1 \<or> \<not> c (PREVIEW_RECT w) (faceRectSmallerOf (faces ! 0)) \<longrightarrow>
      handleFaceDetection c w s buf faces = ([FACE_DETECTED No], buf) \<and>
      processFrame c w (s, buf) faces = (initialState, buf)) \<and>
   (FACE_DETECTED No \<in> set (fst (handleFaceDetection c w s buf faces)) \<longrightarrow>
      snd (handleFaceDetection c w s buf faces) = buf \<and>
      snd (processFrame c w (s, buf) faces) = buf) \<and>
   (snd (processFrame c w (s, buf) faces) = buf \<or>
    snd (processFrame c w (s, buf) faces) =
      (if length buf \<ge> 10 then tl (buf @ [rollAngle (faces ! 0)])
       else buf @ [rollAngle (faces ! 0)]))"
proof -
  have snd_frame: "snd (processFrame c w (s, buf) faces) =
      snd (handleFaceDetection c w s buf faces)"
    by (simp add: processFrame_def split_beta)
  have reset: "handleFaceDetection c w s buf faces = ([FACE_DETECTED No], buf)"
    if "length faces \<noteq> 1 \<or> \<not> c (PREVIEW_RECT w) (faceRectSmallerOf (faces ! 0))"
  proof (cases "length faces = 1")
    case True
    with that show ?thesis by (simp add: handleFaceDetection_one)
  next
    case False
    then show ?thesis by (rule handleFaceDetection_other_count)
  qed
  have only_reset: "length faces \<noteq> 1 \<or> \<not> c (PREVIEW_RECT w) (faceRectSmallerOf (faces ! 0))"
    if "FACE_DETECTED No \<in> set (fst (handleFaceDetection c w s buf faces))"
  proof (rule ccontr)
    assume "\<not> ?thesis"
    then have one: "length faces = 1"
      and inside: "c (PREVIEW_RECT w) (faceRectSmallerOf (faces ! 0))"
      by simp_all
    from that show False
      using evaluateChallenge_dispatches [of s buf "faces ! 0"] inside
      by (auto simp add: handleFaceDetection_one [OF one] split: if_splits)
  qed
  have cases_buf: "snd (handleFaceDetection c w s buf faces) = buf \<or>
    snd (handleFaceDetection c w s buf faces) =
      (if length buf \<ge> 10 then tl (buf @ [rollAngle (faces ! 0)])
       else buf @ [rollAngle (faces ! 0)])"
  proof (cases "length faces = 1")
    case True
    show ?thesis
      using evaluateChallenge_buffer [of s buf "faces ! 0"]
      by (auto simp add: handleFaceDetection_one [OF True])
  next
    case False
    then show ?thesis by (simp add: handleFaceDetection_other_count)
  qed
  show ?thesis
  proof (intro conjI impI)
    assume a: "length faces \<noteq> 1 \<or> \<not> c (PREVIEW_RECT w) (faceRectSmallerOf (faces ! 0))"
    show "handleFaceDetection c w s buf faces = ([FACE_DETECTED No], buf)"
      using a by (rule reset)
    then show "processFrame c w (s, buf) faces = (initialState, buf)"
      by (simp add: processFrame_def)
  next
    assume "FACE_DETECTED No \<in> set (fst (handleFaceDetection c w s buf faces))"
    then have "handleFaceDetection c w s buf faces = ([FACE_DETECTED No], buf)"
      using only_reset reset by blast
    then show "snd (handleFaceDetection c w s buf faces) = buf"
      and "snd (processFrame c w (s, buf) faces) = buf"
      by (simp_all add: snd_frame)
  next
    show "snd (processFrame c w (s, buf) faces) = buf \<or>
      snd (processFrame c w (s, buf) faces) =
        (if length buf \<ge> 10 then tl (buf @ [rollAngle (faces ! 0)])
         else buf @ [rollAngle (faces ! 0)])"
      unfolding snd_frame by (rule cases_buf)
  qed
qed

theorem history_survives_reset_witness:
  "processFrame contains 325
     (run [FACE_DETECTED Yes, NEXT_DETECTION, NEXT_DETECTION, NEXT_DETECTION], [1, 2, 3]) [] =
     (initialState, [1, 2, 3]) \<and>
   \<not> contains (PREVIEW_RECT 325)
       (faceRectSmallerOf
         ([\<lparr>bounds_origin_x = 0, bounds_origin_y = 50, bounds_size_width = 400,
           bounds_size_height = 400, leftEyeOpenProbability = 1,
           rightEyeOpenProbability = 1, smilingProbability = 0, yawAngle = 0,
           rollAngle = 7\<rparr>] ! 0)) \<and>
   processFrame contains 325
     (run [FACE_DETECTED Yes, NEXT_DETECTION, NEXT_DETECTION, NEXT_DETECTION], [1, 2, 3])
     [\<lparr>bounds_origin_x = 0, bounds_origin_y = 50, bounds_size_width = 400,
       bounds_size_height = 400, leftEyeOpenProbability = 1,
       rightEyeOpenProbability = 1, smilingProbability = 0, yawAngle = 0,
       rollAngle = 7\<rparr>] = (initialState, [1, 2, 3])"
proof -
  let ?A = "\<lparr>bounds_origin_x = 0, bounds_origin_y = 50, bounds_size_width = 400,
       bounds_size_height = 400, leftEyeOpenProbability = 1,
       rightEyeOpenProbability = 1, smilingProbability = 0, yawAngle = 0,
       rollAngle = 7\<rparr>"
  let ?s = "run [FACE_DETECTED Yes, NEXT_DETECTION, NEXT_DETECTION, NEXT_DETECTION]"
  have out: "\<not> contains (PREVIEW_RECT 325) (faceRectSmallerOf ([?A] ! 0))"
    by (simp add: contains_def PREVIEW_RECT_def PREVIEW_SIZE_def faceRectSmallerOf_def
        faceRectOf_def edgeOffset_def)
  have "processFrame contains 325 (?s, [1, 2, 3]) [] = (initialState, [1, 2, 3])"
    using history_survives_reset [of "[]" contains 325 ?s "[1, 2, 3]", THEN conjunct1]
    by simp
  moreover have "processFrame contains 325 (?s, [1, 2, 3]) [?A] = (initialState, [1, 2, 3])"
    using history_survives_reset [of "[?A]" contains 325 ?s "[1, 2, 3]", THEN conjunct1] out
    by simp
  ultimately show ?thesis using out by simp
qed

end
